theory Spec2Isabelle
  imports Main "HOL-Library.Word"
begin

unbundle bit_operations_syntax

section \<open>smallsh: a shallow embedding of \<open>main.c\<close>\<close>

text \<open>
  C strings are \<open>string\<close>s (the bytes before the terminating NUL). A pointer into a
  string is an offset. Everything the C standard leaves undefined is a value of
  \<open>error\<close>, so that a run of the model is either a result or the undefined
  behaviour the source reaches.
\<close>

datatype error =
    WriteOutOfBounds      \<comment> \<open>a store beyond the end of an array or allocated block\<close>
  | IndeterminateRead     \<comment> \<open>a read of a byte that was never written\<close>
  | NullDereference       \<comment> \<open>a null pointer passed to \<open>strcmp\<close>\<close>

subsection \<open>Library functions\<close>

text \<open>\<open>strstr(hay, needle)\<close>: the offset of the first occurrence, \<open>None\<close> for \<open>NULL\<close>.\<close>

fun strstr :: "string \<Rightarrow> string \<Rightarrow> nat option" where
  "strstr [] needle = (if needle = [] then Some 0 else None)"
| "strstr (c # cs) needle =
     (if take (length needle) (c # cs) = needle then Some 0
      else map_option Suc (strstr cs needle))"

text \<open>\<open>strstr(tok + ptr, "$$")\<close> as an offset into \<open>tok\<close>.\<close>

definition strstr_at :: "string \<Rightarrow> nat \<Rightarrow> nat option" where
  "strstr_at tok ptr = map_option (\<lambda>k. ptr + k) (strstr (drop ptr tok) ''$$'')"

text \<open>The conversion \<open>%d\<close> of \<open>printf\<close> and \<open>snprintf\<close>.\<close>

definition digit_char :: "nat \<Rightarrow> char" where
  "digit_char d = ''0123456789'' ! (d mod 10)"

fun string_of_nat :: "nat \<Rightarrow> string" where
  "string_of_nat n =
     (if n < 10 then [digit_char n] else string_of_nat (n div 10) @ [digit_char (n mod 10)])"

declare string_of_nat.simps [simp del]

definition string_of_int :: "int \<Rightarrow> string" where
  "string_of_int i = (if i < 0 then CHR ''-'' # string_of_nat (nat (- i)) else string_of_nat (nat i))"

text \<open>
  \<open>snprintf(buf, n, "%d", v)\<close> stores at most \<open>n - 1\<close> characters and a NUL;
  the result is the string then found in \<open>buf\<close>.
\<close>

definition snprintf_d :: "nat \<Rightarrow> int \<Rightarrow> string" where
  "snprintf_d n v = take (n - 1) (string_of_int v)"

text \<open>
  A block returned by \<open>malloc\<close>: its bytes, \<open>None\<close> while indeterminate. The model
  takes the allocation to succeed.
\<close>

type_synonym block = "char option list"

definition NUL :: char where
  "NUL = CHR 0x00"

definition malloc :: "nat \<Rightarrow> block" where
  "malloc n = replicate n None"

definition memcpy :: "block \<Rightarrow> nat \<Rightarrow> string \<Rightarrow> error + block" where
  "memcpy buf wp src =
     (if wp + length src \<le> length buf
      then Inr (take wp buf @ map Some src @ drop (wp + length src) buf)
      else Inl WriteOutOfBounds)"

definition strcpy :: "block \<Rightarrow> nat \<Rightarrow> string \<Rightarrow> error + block" where
  "strcpy buf wp src = memcpy buf wp (src @ [NUL])"

text \<open>Reading the block as a C string, as \<open>strcmp\<close> and \<open>execvp\<close> do with an argument.\<close>

fun c_string :: "block \<Rightarrow> error + string" where
  "c_string [] = Inl IndeterminateRead"
| "c_string (None # bs) = Inl IndeterminateRead"
| "c_string (Some c # bs) =
     (if c = NUL then Inr []
      else (case c_string bs of Inl e \<Rightarrow> Inl e | Inr s \<Rightarrow> Inr (c # s)))"

subsection \<open>\<open>expandShellID\<close>\<close>

text \<open>
  The first loop of \<open>expandShellID\<close>:
  \<^verbatim>\<open>while (ptr) { dollarCount++; ptr = strstr(ptr + 2, "$$"); }\<close>
\<close>

lemma strstr_bound: "strstr hay needle = Some k \<Longrightarrow> k + length needle \<le> length hay"
proof (induction hay arbitrary: k)
  case Nil
  then show ?case by (simp split: if_splits)
next
  case (Cons c cs)
  show ?case
  proof (cases "take (length needle) (c # cs) = needle")
    case True
    then have "length needle \<le> length (c # cs)"
      by (metis length_take min.cobounded1)
    with True Cons.prems show ?thesis by simp
  next
    case False
    with Cons.prems obtain j where "strstr cs needle = Some j" "k = Suc j"
      by auto
    with Cons.IH show ?thesis by fastforce
  qed
qed

lemma strstr_at_bound: "strstr_at tok ptr = Some p \<Longrightarrow> ptr \<le> p \<and> p + 2 \<le> length tok"
  by (auto simp: strstr_at_def dest!: strstr_bound)

function count_loop :: "string \<Rightarrow> nat option \<Rightarrow> nat \<Rightarrow> nat" where
  "count_loop tok None dollarCount = dollarCount"
| "count_loop tok (Some ptr) dollarCount =
     count_loop tok (strstr_at tok (ptr + 2)) (dollarCount + 1)"
  by pat_completeness auto
termination
  by (relation "measure (\<lambda>(tok, ptr, n). case ptr of None \<Rightarrow> 0 | Some p \<Rightarrow> Suc (length tok - p))")
     (auto split: option.splits dest!: strstr_at_bound)

text \<open>
  The second loop:
  \<^verbatim>\<open>
  while ((ptr = strstr(ptr, "$$"))) {
      size_t segmentLength = ptr - token;
      memcpy(writePtr, token, segmentLength);
      writePtr += segmentLength;
      strcpy(writePtr, SS_PID);
      writePtr += strlen(SS_PID);
      ptr += 2;
      token = ptr;
  }
  \<close>
  \<open>token\<close> and \<open>ptr\<close> are offsets into the argument \<open>tok\<close>, \<open>writePtr\<close> an
  offset into the block. At the head of the loop \<open>token = ptr\<close>, so the difference
  \<open>ptr - token\<close> is never negative.
\<close>

function expand_loop ::
  "string \<Rightarrow> string \<Rightarrow> block \<Rightarrow> nat \<Rightarrow> nat \<Rightarrow> nat \<Rightarrow> error + block" where
  "expand_loop tok SS_PID buf writePtr ptr token =
     (case strstr_at tok ptr of
        None \<Rightarrow> Inr buf
      | Some p \<Rightarrow>
          (let segmentLength = p - token in
           case memcpy buf writePtr (take segmentLength (drop token tok)) of
             Inl e \<Rightarrow> Inl e
           | Inr buf1 \<Rightarrow>
               (case strcpy buf1 (writePtr + segmentLength) SS_PID of
                  Inl e \<Rightarrow> Inl e
                | Inr buf2 \<Rightarrow>
                    expand_loop tok SS_PID buf2
                      (writePtr + segmentLength + length SS_PID) (p + 2) (p + 2))))"
  by pat_completeness auto
termination
  by (relation "measure (\<lambda>(tok, ss, buf, wp, ptr, token). Suc (length tok) - ptr)")
     (auto dest!: strstr_at_bound)

declare expand_loop.simps [simp del]

text \<open>
  \<open>size_t\<close> is taken to be 64 bits wide: \<open>strlen(SS_PID) - 2\<close> wraps around for a
  one-digit process id, and the sum wraps back.
\<close>

definition newSize :: "string \<Rightarrow> string \<Rightarrow> nat \<Rightarrow> nat" where
  "newSize tok SS_PID dollarCount =
     unat (of_nat (length tok) + ((of_nat (length SS_PID) - 2) * of_nat dollarCount) + 1 :: 64 word)"

text \<open>
  \<open>expandShellID\<close>, with the value of \<open>getpid()\<close> as a parameter. The result is the
  C string the caller finds at the returned pointer.
\<close>

definition expandShellID :: "int \<Rightarrow> string \<Rightarrow> error + string" where
  "expandShellID pid tok =
     (let SS_PID = snprintf_d 7 pid;
          dollarCount = count_loop tok (strstr_at tok 0) 0;
          expandedArg = malloc (newSize tok SS_PID dollarCount)
      in case expand_loop tok SS_PID expandedArg 0 0 0 of
           Inl e \<Rightarrow> Inl e
         | Inr buf \<Rightarrow> c_string buf)"

subsection \<open>The interpreter's state and its environment\<close>

definition MAX_INPUT_SIZE :: nat where
  "MAX_INPUT_SIZE = 2048"

definition MAX_ARG_SIZE :: nat where
  "MAX_ARG_SIZE = 512"

datatype signal = SIGINT | SIGTSTP | SIGTERM | SIGCHLD

datatype disposition = SIG_DFL | SIG_IGN | Handler string

datatype open_flags = O_RDONLY | O_WRONLY_CREAT_TRUNC

text \<open>What a process does that its surroundings can observe, in the order it does it.\<close>

datatype event =
    Stdout string                       \<comment> \<open>\<open>printf\<close> with \<open>fflush\<close>, or \<open>write\<close>, on descriptor 1\<close>
  | Perror string                       \<comment> \<open>\<open>perror(msg)\<close>\<close>
  | Open string open_flags int          \<comment> \<open>\<open>open\<close> and the descriptor it returned\<close>
  | Dup2 int int
  | Close int
  | Chdir "string option" int           \<comment> \<open>\<open>chdir\<close> and its return value\<close>
  | Kill int signal
  | Signal signal disposition           \<comment> \<open>\<open>signal(sig, disposition)\<close>\<close>
  | Foreground_wait int int             \<comment> \<open>the return of \<open>waitpid(spawnPid, &status, 0)\<close>, and the value that \<open>status\<close> then holds\<close>

text \<open>
  The globals of \<open>main.c\<close>, the signal dispositions of the process, the kernel's table
  of its children (a child's wait status is \<open>None\<close> while it runs, \<open>Some\<close> once it
  has terminated and waits to be reaped) and the events so far.
\<close>

record world =
  lastExitStatus :: int
  lastTerminalSignal :: int
  foreground_only_mode :: int
  dispositions :: "signal \<Rightarrow> disposition"
  children :: "(int \<times> int option) list"
  trace :: "event list"

text \<open>
  What the operating system answers during one call of \<open>handleCommand\<close>, in the
  process that the model follows.
\<close>

record env =
  getpid :: int                         \<comment> \<open>\<open>getpid()\<close>\<close>
  fork_ret :: int                       \<comment> \<open>\<open>fork()\<close>: -1, 0 in the child, the child's id in the parent\<close>
  wait_status :: "int option"           \<comment> \<open>the status \<open>waitpid(spawnPid, &status, 0)\<close> stores when it reaps the child; \<open>None\<close> when it does not reap it\<close>
  reaped_first :: "int option"          \<comment> \<open>in that case: the status of the child that \<open>handle_sigchld\<close> gets before \<open>waitpid(spawnPid, &status, 0)\<close> does; \<open>None\<close> when the child does not terminate\<close>
  indeterminate :: int                  \<comment> \<open>the value that the local variable \<open>status\<close> holds while nothing is stored in it\<close>
  open_ret :: "string \<Rightarrow> open_flags \<Rightarrow> int"   \<comment> \<open>\<open>open(path, flags, ...)\<close>: a descriptor, or -1\<close>
  chdir_ret :: "string option \<Rightarrow> int"    \<comment> \<open>\<open>chdir(path)\<close>: 0, or -1\<close>
  getenv_HOME :: "string option"        \<comment> \<open>\<open>getenv("HOME")\<close>\<close>
  execvp_fails :: bool                  \<comment> \<open>\<open>execvp\<close> returns only when it fails\<close>

text \<open>
  How a call ends: it returns, the process exits with a status, the process image is
  replaced by a program, a signal terminates the process, or the call waits without
  end.
\<close>

datatype result =
    Returns world
  | Exits int world
  | Execs string "string list" world
  | Killed signal world
  | Blocks world                        \<comment> \<open>the call waits for a child that does not terminate\<close>

definition emit :: "event \<Rightarrow> world \<Rightarrow> world" where
  "emit e w = w\<lparr>trace := trace w @ [e]\<rparr>"

definition nl :: string where
  "nl = [CHR 0x0A]"

text \<open>
  The macros of \<open><sys/wait.h>\<close> (glibc):
  \<^verbatim>\<open>
  #define WEXITSTATUS(status)  (((status) & 0xff00) >> 8)
  #define WTERMSIG(status)     ((status) & 0x7f)
  #define WIFSIGNALED(status)  (((signed char) (((status) & 0x7f) + 1) >> 1) > 0)
  \<close>
\<close>

definition WEXITSTATUS :: "int \<Rightarrow> int" where
  "WEXITSTATUS status = drop_bit 8 (status AND 0xff00)"

definition WTERMSIG :: "int \<Rightarrow> int" where
  "WTERMSIG status = status AND 0x7f"

definition WIFSIGNALED :: "int \<Rightarrow> bool" where
  "WIFSIGNALED status =
     (0 < sint (signed_drop_bit 1 (word_of_int ((status AND 0x7f) + 1) :: 8 word)))"

text \<open>
  The status the kernel stores for a child that has exited with code \<open>ret\<close> (and
  \<open>sig = 0\<close>) or that was terminated by signal \<open>sig\<close> (and \<open>ret = 0\<close>), and the flag
  it adds when the child has dumped core:
  \<^verbatim>\<open>
  #define W_EXITCODE(ret, sig)  ((ret) << 8 | (sig))
  #define WCOREFLAG             0x80
  \<close>
\<close>

definition W_EXITCODE :: "int \<Rightarrow> int \<Rightarrow> int" where
  "W_EXITCODE ret sig = push_bit 8 ret OR sig"

definition WCOREFLAG :: int where
  "WCOREFLAG = 0x80"

subsection \<open>\<open>parseInput\<close>\<close>

text \<open>
  \<open>strtok(s, " ")\<close> on the rest of the line: the next token and the rest after it,
  \<open>None\<close> for \<open>NULL\<close>. \<open>tokens\<close> is the sequence of results of the successive calls;
  once \<open>strtok\<close> has returned \<open>NULL\<close> it returns \<open>NULL\<close> again.
\<close>

definition strtok :: "string \<Rightarrow> (string \<times> string) option" where
  "strtok s =
     (let s1 = dropWhile (\<lambda>c. c = CHR '' '') s in
      if s1 = [] then None
      else Some (takeWhile (\<lambda>c. c \<noteq> CHR '' '') s1, drop 1 (dropWhile (\<lambda>c. c \<noteq> CHR '' '') s1)))"

lemma strtok_Some:
  "strtok s = Some (t, rest) \<Longrightarrow>
     dropWhile (\<lambda>c. c = CHR '' '') s \<noteq> [] \<and>
     rest = drop 1 (dropWhile (\<lambda>c. c \<noteq> CHR '' '') (dropWhile (\<lambda>c. c = CHR '' '') s))"
  unfolding strtok_def Let_def by (simp split: if_splits)

lemma strtok_shorter: "strtok s = Some (t, rest) \<Longrightarrow> length rest < length s"
proof -
  assume a: "strtok s = Some (t, rest)"
  define s1 where "s1 = dropWhile (\<lambda>c. c = CHR '' '') s"
  define s2 where "s2 = dropWhile (\<lambda>c. c \<noteq> CHR '' '') s1"
  from strtok_Some [OF a] have ne: "s1 \<noteq> []" and r: "rest = drop 1 s2"
    by (simp_all add: s1_def s2_def)
  have "length s2 \<le> length s1"
    unfolding s2_def by (rule length_dropWhile_le)
  moreover have "length s1 \<le> length s"
    unfolding s1_def by (rule length_dropWhile_le)
  moreover have "0 < length s1"
    using ne by simp
  moreover have "length rest = length s2 - 1"
    using r by simp
  ultimately show ?thesis
    by arith
qed

function tokens :: "string \<Rightarrow> string list" where
  "tokens s = (case strtok s of None \<Rightarrow> [] | Some (t, rest) \<Rightarrow> t # tokens rest)"
  by pat_completeness auto
termination
  by (relation "measure length") (auto dest: strtok_shorter)

declare tokens.simps [simp del]

text \<open>
  The caller's variables that \<open>parseInput\<close> writes through its pointer parameters.
  \<open>args\<close> holds the entries \<open>args[0]\<close> to \<open>args[i - 1]\<close> stored so far; the array
  has \<open>MAX_ARG_SIZE\<close> entries.
\<close>

record parsed =
  args :: "string list"
  inputFile :: "string option"
  outputFile :: "string option"
  background :: int

text \<open>\<open>args[i++] = a\<close>, and \<open>args[i] = NULL\<close>.\<close>

definition store_arg :: "parsed \<Rightarrow> string \<Rightarrow> error + parsed" where
  "store_arg st a =
     (if length (args st) < MAX_ARG_SIZE then Inr (st\<lparr>args := args st @ [a]\<rparr>)
      else Inl WriteOutOfBounds)"

definition store_sentinel :: "parsed \<Rightarrow> error + parsed" where
  "store_sentinel st =
     (if length (args st) < MAX_ARG_SIZE then Inr st else Inl WriteOutOfBounds)"

text \<open>
  The loop of \<open>parseInput\<close> over the tokens that \<open>strtok\<close> still has to return, the
  first of them being \<open>token\<close>.
\<close>

fun parse_loop :: "int \<Rightarrow> int \<Rightarrow> string list \<Rightarrow> parsed \<Rightarrow> error + parsed" where
  "parse_loop fg pid [] st = Inr st"
| "parse_loop fg pid (token # rest) st =
     (if token = ''<'' then
        (case rest of
           [] \<Rightarrow> parse_loop fg pid [] (st\<lparr>inputFile := None\<rparr>)
         | f # rest' \<Rightarrow> parse_loop fg pid rest' (st\<lparr>inputFile := Some f\<rparr>))
      else if token = ''>'' then
        (case rest of
           [] \<Rightarrow> parse_loop fg pid [] (st\<lparr>outputFile := None\<rparr>)
         | f # rest' \<Rightarrow> parse_loop fg pid rest' (st\<lparr>outputFile := Some f\<rparr>))
      else if token = ''&'' then
        parse_loop fg pid rest (if fg = 0 then st\<lparr>background := 1\<rparr> else st)
      else if strstr token ''$$'' \<noteq> None then
        (case expandShellID pid token of
           Inl e \<Rightarrow> Inl e
         | Inr a \<Rightarrow>
             (case store_arg st a of
                Inl e \<Rightarrow> Inl e
              | Inr st' \<Rightarrow> parse_loop fg pid rest st'))
      else
        (case store_arg st token of
           Inl e \<Rightarrow> Inl e
         | Inr st' \<Rightarrow> parse_loop fg pid rest st'))"

text \<open>
  \<open>parseInput\<close>, with the value of \<open>foreground_only_mode\<close> and of \<open>getpid()\<close> as
  parameters; \<open>st\<close> holds the caller's variables as \<open>handleCommand\<close> initialised them.
\<close>

definition parseInput :: "int \<Rightarrow> int \<Rightarrow> string \<Rightarrow> parsed \<Rightarrow> error + parsed" where
  "parseInput fg pid input st =
     (case parse_loop fg pid (tokens input) st of
        Inl e \<Rightarrow> Inl e
      | Inr st' \<Rightarrow> store_sentinel st')"

subsection \<open>The built-in commands\<close>

text \<open>
  \<open>kill(0, SIGTERM); exit(0);\<close> The signal goes to every process of the group, the
  interpreter included. While SIGTERM has its default disposition there (\<open>main\<close>
  leaves it so), the signal terminates the interpreter before \<open>kill\<close> returns.
\<close>

definition handleExit :: "world \<Rightarrow> result" where
  "handleExit w =
     (let w1 = emit (Kill 0 SIGTERM) w in
      if dispositions w SIGTERM = SIG_DFL then Killed SIGTERM w1 else Exits 0 w1)"

text \<open>\<open>args[1]\<close> is the second argument, or the sentinel when there is none.\<close>

definition handleCd :: "env \<Rightarrow> world \<Rightarrow> string list \<Rightarrow> world" where
  "handleCd env w argv =
     (case argv of
        a0 # path # rest \<Rightarrow>
          (let r = chdir_ret env (Some path); w1 = emit (Chdir (Some path) r) w
           in if r \<noteq> 0 then emit (Perror ''cd failed'') w1 else w1)
      | _ \<Rightarrow> emit (Chdir (getenv_HOME env) (chdir_ret env (getenv_HOME env))) w)"

definition handleStatus :: "world \<Rightarrow> world" where
  "handleStatus w =
     (if lastExitStatus w \<noteq> - 1
      then emit (Stdout (''exit value: '' @ string_of_int (lastExitStatus w) @ nl)) w
      else emit (Stdout (''terminated by signal '' @ string_of_int (lastTerminalSignal w) @ nl)) w)"

subsection \<open>The signal handlers\<close>

text \<open>\<open>write(STDOUT_FILENO, s, n)\<close> with a string literal \<open>s\<close>: its first \<open>n\<close> bytes, the NUL included.\<close>

definition write_stdout :: "string \<Rightarrow> nat \<Rightarrow> world \<Rightarrow> world" where
  "write_stdout s n w = emit (Stdout (take n (s @ [NUL]))) w"

definition handle_sigtstp :: "world \<Rightarrow> world" where
  "handle_sigtstp w =
     (if foreground_only_mode w \<noteq> 0
      then (write_stdout (nl @ ''Exiting foreground-only mode'' @ nl) 30 w)
             \<lparr>foreground_only_mode := 0\<rparr>
      else (write_stdout (nl @ ''Entering foreground-only mode (& is now ignored)'' @ nl) 51 w)
             \<lparr>foreground_only_mode := 1\<rparr>)"

text \<open>
  \<open>waitpid(pid, &status, options)\<close> on the table of children, \<open>pid\<close> being -1 for any
  child: a terminated child is removed from the table and its id and status returned;
  with no such child the call fails when no child matches at all, returns 0 under
  \<open>WNOHANG\<close>, and waits otherwise.
\<close>

datatype wait_ret = Reaped int int | No_change | No_child | Waits

definition waitpid ::
  "(int \<times> int option) list \<Rightarrow> int \<Rightarrow> bool \<Rightarrow> wait_ret \<times> (int \<times> int option) list" where
  "waitpid cs pid WNOHANG =
     (case List.find (\<lambda>(p, s). (pid = - 1 \<or> p = pid) \<and> s \<noteq> None) cs of
        Some (p, Some status) \<Rightarrow> (Reaped p status, remove1 (p, Some status) cs)
      | _ \<Rightarrow>
          if \<not> list_ex (\<lambda>(p, s). pid = - 1 \<or> p = pid) cs then (No_child, cs)
          else if WNOHANG then (No_change, cs)
          else (Waits, cs))"

lemma find_Some_in_set: "List.find P xs = Some x \<Longrightarrow> x \<in> set xs"
  by (induction xs) (auto split: if_splits)

lemma waitpid_Reaped:
  "waitpid cs pid h = (Reaped p status, cs') \<Longrightarrow>
     List.find (\<lambda>(p, s). (pid = - 1 \<or> p = pid) \<and> s \<noteq> None) cs = Some (p, Some status)
     \<and> cs' = remove1 (p, Some status) cs"
  unfolding waitpid_def by (simp split: option.splits prod.splits if_splits)

lemma waitpid_Reaped_shorter:
  "waitpid cs pid h = (Reaped p status, cs') \<Longrightarrow> length cs' < length cs"
proof -
  assume a: "waitpid cs pid h = (Reaped p status, cs')"
  from waitpid_Reaped [OF a] have "(p, Some status) \<in> set cs"
    by (blast intro: find_Some_in_set)
  moreover from waitpid_Reaped [OF a] have "cs' = remove1 (p, Some status) cs"
    by simp
  ultimately show ?thesis
    using length_pos_if_in_set [of "(p, Some status)" cs] by (simp add: length_remove1)
qed

text \<open>
  What \<open>handle_sigchld\<close> prints for a child it has reaped:
  \<^verbatim>\<open>
  if (WIFSIGNALED(status))
      printf("Background process with PID %d terminated by signal %d\n", child_pid, WTERMSIG(status));
  else
      printf("Background process with PID %d exited with status %d\n", child_pid, WEXITSTATUS(status));
  \<close>
\<close>

definition sigchld_report :: "int \<Rightarrow> int \<Rightarrow> string" where
  "sigchld_report child_pid status =
     (if WIFSIGNALED status
      then ''Background process with PID '' @ string_of_int child_pid
             @ '' terminated by signal '' @ string_of_int (WTERMSIG status) @ nl
      else ''Background process with PID '' @ string_of_int child_pid
             @ '' exited with status '' @ string_of_int (WEXITSTATUS status) @ nl)"

text \<open>
  The loop of \<open>handle_sigchld\<close>:
  \<^verbatim>\<open>while ((child_pid = waitpid(-1, &status, WNOHANG)) > 0) { ... }\<close>
  \<open>None\<close> stands for a handler that does not return.
\<close>

function sigchld_loop :: "world \<Rightarrow> world option" where
  "sigchld_loop w =
     (case waitpid (children w) (- 1) True of
        (Reaped child_pid status, cs) \<Rightarrow>
          sigchld_loop (emit (Stdout (sigchld_report child_pid status)) (w\<lparr>children := cs\<rparr>))
      | (Waits, cs) \<Rightarrow> None
      | (r, cs) \<Rightarrow> Some w)"
  by pat_completeness auto
termination
proof (relation "measure (\<lambda>w. length (children w))")
  show "wf (measure (\<lambda>w. length (children w)))"
    by simp
next
  fix w :: world and x y child_pid status e
  assume "(x, y) = waitpid (children w) (- 1) True" and "x = Reaped child_pid status"
  then have "waitpid (children w) (- 1) True = (Reaped child_pid status, y)"
    by simp
  from waitpid_Reaped_shorter [OF this]
  show "(emit e (w\<lparr>children := y\<rparr>), w) \<in> measure (\<lambda>w. length (children w))"
    by (simp add: emit_def)
qed

declare sigchld_loop.simps [simp del]

definition handle_sigchld :: "world \<Rightarrow> world option" where
  "handle_sigchld w = sigchld_loop w"

subsection \<open>\<open>executeCommand\<close>\<close>

definition signal_call :: "signal \<Rightarrow> disposition \<Rightarrow> world \<Rightarrow> world" where
  "signal_call sig d w = emit (Signal sig d) (w\<lparr>dispositions := (dispositions w)(sig := d)\<rparr>)"

text \<open>
  One redirection in the child:
  \<^verbatim>\<open>
  if (file) {
      int fd = open(file, flags);
      if (fd == -1) { perror(msg); exit(1); }
      dup2(fd, target); close(fd);
  }
  \<close>
  \<open>Inl\<close> is the exit of the child.
\<close>

definition redirect ::
  "env \<Rightarrow> string option \<Rightarrow> open_flags \<Rightarrow> int \<Rightarrow> string \<Rightarrow> world \<Rightarrow> result + world" where
  "redirect env file flags target msg w =
     (case file of
        None \<Rightarrow> Inr w
      | Some path \<Rightarrow>
          (let fd = open_ret env path flags; w1 = emit (Open path flags fd) w
           in if fd = - 1 then Inl (Exits 1 (emit (Perror msg) w1))
              else Inr (emit (Close fd) (emit (Dup2 fd target) w1))))"

text \<open>The branch \<open>spawnPid == 0\<close>: the new process, which has no children of its own.\<close>

definition child ::
  "env \<Rightarrow> world \<Rightarrow> string list \<Rightarrow> string option \<Rightarrow> string option \<Rightarrow> error + result" where
  "child env w argv inFile outFile =
     (let w1 = signal_call SIGTSTP SIG_IGN (w\<lparr>children := []\<rparr>);
          w2 = signal_call SIGINT SIG_DFL w1
      in case redirect env inFile O_RDONLY 0 ''Input redirection failed'' w2 of
           Inl r \<Rightarrow> Inr r
         | Inr w3 \<Rightarrow>
             (case redirect env outFile O_WRONLY_CREAT_TRUNC 1 ''Output redirection failed'' w3 of
                Inl r \<Rightarrow> Inr r
              | Inr w4 \<Rightarrow>
                  (case argv of
                     [] \<Rightarrow> Inl NullDereference
                   | a0 # rest \<Rightarrow>
                       if execvp_fails env
                       then Inr (Exits 1 (emit (Perror ''Command execution failed'') w4))
                       else Inr (Execs a0 argv w4))))"

text \<open>
  The statements after the foreground \<open>waitpid\<close>, on the value that \<open>status\<close> holds:
  \<^verbatim>\<open>
  if (WIFSIGNALED(status)) {
      lastTerminalSignal = WTERMSIG(status);
      lastExitStatus = -1;
  }
  else lastExitStatus = WEXITSTATUS(status);
  \<close>
\<close>

definition store_status :: "int \<Rightarrow> int \<Rightarrow> world \<Rightarrow> world" where
  "store_status spawnPid status w =
     (let w1 = emit (Foreground_wait spawnPid status) w in
      if WIFSIGNALED status
      then w1\<lparr>lastTerminalSignal := WTERMSIG status, lastExitStatus := - 1\<rparr>
      else w1\<lparr>lastExitStatus := WEXITSTATUS status\<rparr>)"

text \<open>
  \<open>executeCommand\<close>. In the parent a child started in the background enters the table
  of children. For a child waited for in the foreground there are two courses.
  Either \<open>waitpid(spawnPid, &status, 0)\<close> reaps the child itself and stores its
  status; then the child has left the table again when the call returns. Or the child
  terminates and SIGCHLD is delivered before that \<open>waitpid\<close> looks for the child (the
  child is quick, or the interpreter was stopped meanwhile): then \<open>handle_sigchld\<close>
  runs first, and its \<open>waitpid(-1, ...)\<close> reaps the foreground child like any other;
  the \<open>waitpid\<close> of \<open>executeCommand\<close> finds no such child, returns -1 and stores
  nothing. Its return value is not looked at, and \<open>status\<close> is a local variable
  without initial value: the statements that follow work on whatever it holds.
\<close>

definition executeCommand ::
  "env \<Rightarrow> world \<Rightarrow> string list \<Rightarrow> string option \<Rightarrow> string option \<Rightarrow> int \<Rightarrow> error + result" where
  "executeCommand env w argv inFile outFile bg =
     (let spawnPid = fork_ret env in
      if spawnPid = - 1 then Inr (Exits 1 (emit (Perror ''fork failed'') w))
      else if spawnPid = 0 then child env w argv inFile outFile
      else if bg \<noteq> 0 \<and> foreground_only_mode w = 0 then
        Inr (Returns
          (emit (Stdout (''Background process ID: '' @ string_of_int spawnPid @ nl))
             (w\<lparr>children := children w @ [(spawnPid, None)]\<rparr>)))
      else
        (case wait_status env of
           Some status \<Rightarrow> Inr (Returns (store_status spawnPid status w))
         | None \<Rightarrow>
             (case reaped_first env of
                None \<Rightarrow> Inr (Blocks (w\<lparr>children := children w @ [(spawnPid, None)]\<rparr>))
              | Some child_status \<Rightarrow>
                  (case handle_sigchld
                          (w\<lparr>children := children w @ [(spawnPid, Some child_status)]\<rparr>) of
                     None \<Rightarrow> Inr (Blocks w)
                   | Some w1 \<Rightarrow>
                       (case waitpid (children w1) spawnPid False of
                          (Reaped p status, cs) \<Rightarrow>
                            Inr (Returns (store_status spawnPid status (w1\<lparr>children := cs\<rparr>)))
                        | (No_child, cs) \<Rightarrow>
                            Inr (Returns (store_status spawnPid (indeterminate env) w1))
                        | (r, cs) \<Rightarrow> Inr (Blocks w1))))))"

subsection \<open>\<open>handleCommand\<close> and the loop of \<open>main\<close>\<close>

text \<open>
  \<open>strcmp(args[0], "exit")\<close> reads through \<open>args[0]\<close>, which is the sentinel when
  \<open>parseInput\<close> stored no argument.
\<close>

definition handleCommand :: "env \<Rightarrow> world \<Rightarrow> string \<Rightarrow> error + result" where
  "handleCommand env w input =
     (case parseInput (foreground_only_mode w) (getpid env) input
             \<lparr>args = [], inputFile = None, outputFile = None, background = 0\<rparr> of
        Inl e \<Rightarrow> Inl e
      | Inr p \<Rightarrow>
          (case args p of
             [] \<Rightarrow> Inl NullDereference
           | a0 # rest \<Rightarrow>
               if a0 = ''exit'' then Inr (handleExit w)
               else if a0 = ''cd'' then Inr (Returns (handleCd env w (args p)))
               else if a0 = ''status'' then Inr (Returns (handleStatus w))
               else executeCommand env w (args p) (inputFile p) (outputFile p) (background p)))"

text \<open>
  The state in which \<open>main\<close> enters its loop: the three \<open>sigaction\<close> calls are done and
  the banner is printed.
\<close>

definition initial_world :: world where
  "initial_world =
     \<lparr>lastExitStatus = 0, lastTerminalSignal = 0, foreground_only_mode = 0,
      dispositions = (\<lambda>sig. SIG_DFL)
        (SIGCHLD := Handler ''handle_sigchld'', SIGTSTP := Handler ''handle_sigtstp'',
         SIGINT := SIG_IGN),
      children = [],
      trace = [Stdout (''smallsh$'' @ nl)]\<rparr>"

text \<open>
  One turn of the loop of \<open>main\<close> on a line that \<open>fgets\<close> has read and whose newline
  is removed.
\<close>

definition main_iteration :: "env \<Rightarrow> world \<Rightarrow> string \<Rightarrow> error + result" where
  "main_iteration env w input =
     (let w1 = emit (Stdout '': '') w in
      case input of
        [] \<Rightarrow> Inr (Returns w1)
      | c # cs \<Rightarrow> if c = CHR ''#'' then Inr (Returns w1) else handleCommand env w1 input)"

text \<open>
  What happens to the interpreter between two turns of its loop, one occurrence after
  the other: a line is read and processed, a signal is delivered and its handler runs,
  or a running child terminates (which changes the kernel's table only). The run of
  \<open>handle_sigchld\<close> within a foreground wait is part of \<open>executeCommand\<close>.
\<close>

datatype occurrence =
    Line env string
  | Deliver_SIGTSTP
  | Deliver_SIGCHLD
  | Child_terminates int int

fun occur :: "world \<Rightarrow> occurrence \<Rightarrow> error + result" where
  "occur w (Line env input) = main_iteration env w input"
| "occur w Deliver_SIGTSTP = Inr (Returns (handle_sigtstp w))"
| "occur w Deliver_SIGCHLD =
     (case handle_sigchld w of None \<Rightarrow> Inr (Blocks w) | Some w' \<Rightarrow> Inr (Returns w'))"
| "occur w (Child_terminates pid status) =
     Inr (Returns (w\<lparr>children :=
       map (\<lambda>(p, s). if p = pid \<and> s = None then (p, Some status) else (p, s)) (children w)\<rparr>))"

fun run :: "world \<Rightarrow> occurrence list \<Rightarrow> error + result" where
  "run w [] = Inr (Returns w)"
| "run w (x # xs) =
     (case occur w x of
        Inr (Returns w') \<Rightarrow> run w' xs
      | r \<Rightarrow> r)"

text \<open>An environment for concrete runs; single answers are changed where a run needs it.\<close>

definition example_env :: env where
  "example_env =
     \<lparr>getpid = 1234, fork_ret = 77, wait_status = Some 0, reaped_first = None,
      indeterminate = 0, open_ret = (\<lambda>path flags. 3), chdir_ret = (\<lambda>path. 0),
      getenv_HOME = Some ''/root'', execvp_fails = False\<rparr>"

text \<open>A word that \<open>parseInput\<close> stores as it is.\<close>

definition plain :: "string \<Rightarrow> bool" where
  "plain t = (t \<noteq> ''<'' \<and> t \<noteq> ''>'' \<and> t \<noteq> ''&'' \<and> strstr t ''$$'' = None)"

subsection \<open>Notions used in the properties\<close>

text \<open>The state in which a call has ended.\<close>

fun result_world :: "result \<Rightarrow> world" where
  "result_world (Returns w) = w"
| "result_world (Exits n w) = w"
| "result_world (Execs a argv w) = w"
| "result_world (Killed sig w) = w"
| "result_world (Blocks w) = w"

fun is_signal_call :: "event \<Rightarrow> bool" where
  "is_signal_call (Signal sig d) = True"
| "is_signal_call e = False"

text \<open>
  The children in the table that have terminated, with their status, and those that
  still run.
\<close>

fun terminated :: "(int \<times> int option) list \<Rightarrow> (int \<times> int) list" where
  "terminated [] = []"
| "terminated ((p, None) # cs) = terminated cs"
| "terminated ((p, Some status) # cs) = (p, status) # terminated cs"

fun running :: "(int \<times> int option) list \<Rightarrow> (int \<times> int option) list" where
  "running [] = []"
| "running ((p, None) # cs) = (p, None) # running cs"
| "running ((p, Some status) # cs) = running cs"

text \<open>
  The value that \<open>status\<close> held after the most recent foreground wait, \<open>None\<close>
  when no foreground command has been waited for.
\<close>

fun last_foreground :: "event list \<Rightarrow> int option" where
  "last_foreground [] = None"
| "last_foreground (e # es) =
     (case last_foreground es of
        Some status \<Rightarrow> Some status
      | None \<Rightarrow> (case e of Foreground_wait pid status \<Rightarrow> Some status | _ \<Rightarrow> None))"

text \<open>
  The globals \<open>lastExitStatus\<close> and \<open>lastTerminalSignal\<close> encode the value that
  \<open>status\<close> held after the most recent foreground wait.
\<close>

definition status_inv :: "world \<Rightarrow> bool" where
  "status_inv w =
     (case last_foreground (trace w) of
        None \<Rightarrow> lastExitStatus w = 0
      | Some status \<Rightarrow>
          if WIFSIGNALED status
          then lastExitStatus w = - 1 \<and> lastTerminalSignal w = WTERMSIG status
          else lastExitStatus w = WEXITSTATUS status)"

text \<open>Two states with the same Execution Status.\<close>

definition same_status :: "world \<Rightarrow> world \<Rightarrow> bool" where
  "same_status w w' =
     (lastExitStatus w' = lastExitStatus w \<and> lastTerminalSignal w' = lastTerminalSignal w)"

text \<open>A state with one terminated and one running background child.\<close>

definition reaper_example :: world where
  "reaper_example =
     initial_world\<lparr>lastExitStatus := 7, children := [(77, Some (W_EXITCODE 0 15)), (78, None)]\<rparr>"

text \<open>
  Two environments in which the foreground child terminates and \<open>handle_sigchld\<close> reaps
  it before the \<open>waitpid\<close> of \<open>executeCommand\<close> looks for it. In the first the child
  exits with code 0 while \<open>status\<close> holds 16; in the second signal 9 terminates the
  child while \<open>status\<close> holds 0.
\<close>

definition reaped_first_env :: env where
  "reaped_first_env =
     example_env\<lparr>wait_status := None, reaped_first := Some (W_EXITCODE 0 0),
       indeterminate := 16\<rparr>"

definition killed_first_env :: env where
  "killed_first_env =
     example_env\<lparr>wait_status := None, reaped_first := Some (W_EXITCODE 0 9),
       indeterminate := 0\<rparr>"

text \<open>The two redirection operators, each of which takes the next token as a file name.\<close>

definition operator :: "string \<Rightarrow> bool" where
  "operator t = (t = ''<'' \<or> t = ''>'')"

text \<open>
  The string that the second loop of \<open>expandShellID\<close> builds from offset \<open>ptr\<close> on, the
  number of occurrences of \<open>$$\<close> that both loops find from there, and the number of
  characters after the last of them.
\<close>

function expand_from :: "string \<Rightarrow> string \<Rightarrow> nat \<Rightarrow> string" where
  "expand_from tok ss ptr =
     (case strstr_at tok ptr of
        None \<Rightarrow> []
      | Some p \<Rightarrow> take (p - ptr) (drop ptr tok) @ ss @ expand_from tok ss (p + 2))"
  by pat_completeness auto
termination
  by (relation "measure (\<lambda>(tok, ss, ptr). Suc (length tok) - ptr)")
     (auto dest!: strstr_at_bound)

declare expand_from.simps [simp del]

function count_from :: "string \<Rightarrow> nat \<Rightarrow> nat" where
  "count_from tok ptr =
     (case strstr_at tok ptr of None \<Rightarrow> 0 | Some p \<Rightarrow> Suc (count_from tok (p + 2)))"
  by pat_completeness auto
termination
  by (relation "measure (\<lambda>(tok, ptr). Suc (length tok) - ptr)")
     (auto dest!: strstr_at_bound)

declare count_from.simps [simp del]

function remainder_from :: "string \<Rightarrow> nat \<Rightarrow> nat" where
  "remainder_from tok ptr =
     (case strstr_at tok ptr of None \<Rightarrow> length tok - ptr | Some p \<Rightarrow> remainder_from tok (p + 2))"
  by pat_completeness auto
termination
  by (relation "measure (\<lambda>(tok, ptr). Suc (length tok) - ptr)")
     (auto dest!: strstr_at_bound)

declare remainder_from.simps [simp del]

section \<open>Properties\<close>

subsection \<open>Tokens and plain words\<close>

lemma tokens_step: "strtok s = Some (t, rest) \<Longrightarrow> tokens s = t # tokens rest"
  by (subst tokens.simps) simp

lemma tokens_end: "strtok s = None \<Longrightarrow> tokens s = []"
  by (subst tokens.simps) simp

lemma tokens_words: "tokens (concat (replicate n ''a '') @ ''a'') = replicate (Suc n) ''a''"
proof (induction n)
  case 0
  have "strtok ''a'' = Some (''a'', [])"
    by (simp add: strtok_def)
  then have "tokens ''a'' = ''a'' # tokens []"
    by (rule tokens_step)
  moreover have "tokens [] = []"
    by (rule tokens_end) (simp add: strtok_def)
  ultimately show ?case by simp
next
  case (Suc n)
  let ?r = "concat (replicate n ''a '') @ ''a''"
  have "strtok (''a '' @ ?r) = Some (''a'', ?r)"
    by (simp add: strtok_def)
  then have "tokens (''a '' @ ?r) = ''a'' # tokens ?r"
    by (rule tokens_step)
  with Suc show ?case by simp
qed

text \<open>Plain words fill \<open>args\<close> one by one until the array is full.\<close>

lemma parse_loop_plain:
  "\<forall>t \<in> set ts. plain t \<Longrightarrow> length (args st) \<le> MAX_ARG_SIZE \<Longrightarrow>
   parse_loop fg pid ts st =
     (if length (args st) + length ts \<le> MAX_ARG_SIZE then Inr (st\<lparr>args := args st @ ts\<rparr>)
      else Inl WriteOutOfBounds)"
proof (induction ts arbitrary: st)
  case Nil
  then show ?case by simp
next
  case (Cons t ts)
  then have p: "plain t" and rest: "\<forall>t \<in> set ts. plain t"
    by simp_all
  show ?case
  proof (cases "length (args st) < MAX_ARG_SIZE")
    case True
    then have "parse_loop fg pid (t # ts) st = parse_loop fg pid ts (st\<lparr>args := args st @ [t]\<rparr>)"
      using p by (simp add: plain_def store_arg_def)
    also have "\<dots> = (if length (args st) + length (t # ts) \<le> MAX_ARG_SIZE
        then Inr (st\<lparr>args := args st @ t # ts\<rparr>) else Inl WriteOutOfBounds)"
      using True Cons.IH [OF rest, of "st\<lparr>args := args st @ [t]\<rparr>"] by simp
    finally show ?thesis .
  next
    case False
    then show ?thesis
      using p Cons.prems(2) by (simp add: plain_def store_arg_def)
  qed
qed

subsection \<open>C1: the substitution of \<open>$$\<close>\<close>

lemma count_loop_count_from:
  "count_loop tok (strstr_at tok ptr) n = n + count_from tok ptr"
proof (induction tok ptr arbitrary: n rule: count_from.induct)
  case (1 tok ptr)
  show ?case
  proof (cases "strstr_at tok ptr")
    case None
    then show ?thesis
      by (subst count_from.simps) simp
  next
    case (Some p)
    with "1.IH" [OF Some, of "n + 1"] show ?thesis
      by (subst count_from.simps) simp
  qed
qed

lemma expand_from_length:
  "length (expand_from tok ss ptr) + 2 * count_from tok ptr
     \<le> (length tok - ptr) + length ss * count_from tok ptr"
proof (induction tok ptr rule: count_from.induct)
  case (1 tok ptr)
  show ?case
  proof (cases "strstr_at tok ptr")
    case None
    then show ?thesis
      by (subst expand_from.simps, subst (1 2) count_from.simps) simp
  next
    case (Some p)
    from strstr_at_bound [OF Some] have b: "ptr \<le> p" "p + 2 \<le> length tok"
      by simp_all
    have e: "expand_from tok ss ptr = take (p - ptr) (drop ptr tok) @ ss @ expand_from tok ss (p + 2)"
      by (subst expand_from.simps) (simp add: Some)
    have c: "count_from tok ptr = Suc (count_from tok (p + 2))"
      by (subst count_from.simps) (simp add: Some)
    from b have "length (take (p - ptr) (drop ptr tok)) = p - ptr"
      by simp
    with "1.IH" [OF Some] b show ?thesis
      unfolding e c by (simp add: algebra_simps)
  qed
qed


lemma memcpy_at_end:
  "length src \<le> length rest \<Longrightarrow>
   memcpy (pre @ rest) (length pre) src = Inr (pre @ map Some src @ drop (length src) rest)"
  by (simp add: memcpy_def)

lemma expand_loop_writes:
  "strstr_at tok ptr \<noteq> None \<Longrightarrow> length (expand_from tok ss ptr) + 1 \<le> length rest \<Longrightarrow>
   expand_loop tok ss (pre @ rest) (length pre) ptr ptr =
     Inr (pre @ map Some (expand_from tok ss ptr) @ [Some NUL]
            @ drop (length (expand_from tok ss ptr) + 1) rest)"
proof (induction tok ss ptr arbitrary: pre rest rule: expand_from.induct)
  case (1 tok ss ptr)
  from "1.prems"(1) obtain p where Some: "strstr_at tok ptr = Some p"
    by auto
  define seg where "seg = take (p - ptr) (drop ptr tok)"
  define out' where "out' = expand_from tok ss (p + 2)"
  have e: "expand_from tok ss ptr = seg @ ss @ out'"
    by (subst expand_from.simps) (simp add: Some seg_def out'_def)
  with "1.prems"(2) have len: "length seg + length ss + length out' + 1 \<le> length rest"
    by simp
  define pre1 where "pre1 = pre @ map Some seg"
  define rest1 where "rest1 = drop (length seg) rest"
  have m1: "memcpy (pre @ rest) (length pre) seg = Inr (pre1 @ rest1)"
    using len by (simp add: memcpy_at_end pre1_def rest1_def)
  have l1: "length (ss @ [NUL]) \<le> length rest1"
    using len by (simp add: rest1_def)
  have ls: "length seg = p - ptr"
    using strstr_at_bound [OF Some] by (auto simp: seg_def)
  have w1: "length pre + (p - ptr) = length pre1"
    by (simp add: pre1_def ls)
  define pre2 where "pre2 = pre1 @ map Some ss"
  define rest2 where "rest2 = Some NUL # drop (length ss + 1) rest1"
  have m2: "strcpy (pre1 @ rest1) (length pre1) ss = Inr (pre2 @ rest2)"
    unfolding strcpy_def using memcpy_at_end [OF l1, of pre1]
    by (simp add: pre2_def rest2_def)
  have w2: "length pre1 + length ss = length pre2"
    by (simp add: pre2_def)
  have step: "expand_loop tok ss (pre @ rest) (length pre) ptr ptr
      = expand_loop tok ss (pre2 @ rest2) (length pre2) (p + 2) (p + 2)"
    by (subst expand_loop.simps)
      (simp add: Some Let_def seg_def [symmetric] m1 w1 m2 w2 del: append_assoc)
  show ?case
  proof (cases "strstr_at tok (p + 2)")
    case None
    then have "out' = []"
      unfolding out'_def by (subst expand_from.simps) simp
    moreover from None have "expand_loop tok ss (pre2 @ rest2) (length pre2) (p + 2) (p + 2)
        = Inr (pre2 @ rest2)"
      by (subst expand_loop.simps) simp
    ultimately show ?thesis
      unfolding step e
      by (simp add: pre2_def pre1_def rest2_def rest1_def add.commute add.left_commute)
  next
    case (Some q)
    have "length out' + 1 \<le> length rest2"
      using len by (simp add: rest2_def rest1_def)
    from "1.IH" [OF \<open>strstr_at tok ptr = Some p\<close> _ this [unfolded out'_def], of pre2] Some
    have "expand_loop tok ss (pre2 @ rest2) (length pre2) (p + 2) (p + 2)
        = Inr (pre2 @ map Some out' @ [Some NUL] @ drop (length out' + 1) rest2)"
      by (simp add: out'_def)
    then show ?thesis
      unfolding step e
      by (simp add: pre2_def pre1_def rest2_def rest1_def add.commute add.left_commute)
  qed
qed


lemma count_from_bound: "2 * count_from tok ptr \<le> length tok - ptr"
proof (induction tok ptr rule: count_from.induct)
  case (1 tok ptr)
  show ?case
  proof (cases "strstr_at tok ptr")
    case None
    then show ?thesis
      by (subst count_from.simps) simp
  next
    case (Some p)
    have c: "count_from tok ptr = Suc (count_from tok (p + 2))"
      by (subst count_from.simps) (simp add: Some)
    from strstr_at_bound [OF Some] "1.IH" [OF Some] show ?thesis
      unfolding c by arith
  qed
qed

lemma newSize_eq:
  assumes "2 * n \<le> length tok" and "length tok + length ss * n + 1 < 2 ^ 64"
  shows "newSize tok ss n = length tok + length ss * n + 1 - 2 * n"
proof -
  define x where "x = length tok + length ss * n + 1 - 2 * n"
  from assms(1) have "x + 2 * n = length tok + length ss * n + 1"
    by (simp add: x_def)
  then have "(of_nat (x + 2 * n) :: 64 word) = of_nat (length tok + length ss * n + 1)"
    by simp
  then have "(of_nat x :: 64 word) + 2 * of_nat n
      = of_nat (length tok) + of_nat (length ss) * of_nat n + 1"
    by simp
  then have "(of_nat (length tok) + (of_nat (length ss) - 2) * of_nat n + 1 :: 64 word) = of_nat x"
    by (simp add: algebra_simps)
  moreover from assms(2) have "x < 2 ^ LENGTH(64)"
    by (simp add: x_def)
  ultimately have "unat (of_nat (length tok) + (of_nat (length ss) - 2) * of_nat n + 1 :: 64 word) = x"
    by (simp add: unat_of_nat)
  then show ?thesis
    by (simp add: newSize_def x_def)
qed

lemma c_string_terminated:
  "NUL \<notin> set out \<Longrightarrow> c_string (map Some out @ Some NUL # rest) = Inr out"
  by (induction out) auto

lemma expand_from_no_NUL:
  "NUL \<notin> set tok \<Longrightarrow> NUL \<notin> set ss \<Longrightarrow> NUL \<notin> set (expand_from tok ss ptr)"
proof (induction tok ss ptr rule: expand_from.induct)
  case (1 tok ss ptr)
  show ?case
  proof (cases "strstr_at tok ptr")
    case None
    then show ?thesis
      by (subst expand_from.simps) simp
  next
    case (Some p)
    have "set (take (p - ptr) (drop ptr tok)) \<subseteq> set tok"
      by (meson set_drop_subset set_take_subset subset_trans)
    with "1.IH" [OF Some "1.prems"] "1.prems" show ?thesis
      by (subst expand_from.simps) (auto simp: Some)
  qed
qed

lemma string_of_nat_digits: "set (string_of_nat n) \<subseteq> set ''0123456789''"
proof (induction n rule: string_of_nat.induct)
  case (1 n)
  have d: "digit_char k \<in> set ''0123456789''" for k
    unfolding digit_char_def by (rule nth_mem) simp
  show ?case
  proof (cases "n < 10")
    case True
    with d [of n] show ?thesis
      by (subst string_of_nat.simps) simp
  next
    case False
    with "1.IH" d [of "n mod 10"] show ?thesis
      by (subst string_of_nat.simps) simp
  qed
qed

lemma snprintf_d_no_NUL: "NUL \<notin> set (snprintf_d n v)"
proof -
  have "NUL \<notin> set ''0123456789''"
    by (simp add: NUL_def)
  with string_of_nat_digits have "NUL \<notin> set (string_of_nat k)" for k
    by blast
  then have "NUL \<notin> set (string_of_int v)"
    by (simp add: string_of_int_def NUL_def)
  then show ?thesis
    unfolding snprintf_d_def by (meson in_set_takeD)
qed

lemma snprintf_d_length: "length (snprintf_d 7 v) \<le> 6"
  by (simp add: snprintf_d_def)

text \<open>
  What \<open>expandShellID\<close> returns for a token with an occurrence of \<open>$$\<close>: the text
  before each occurrence and the process id in its place, up to the last occurrence.
\<close>

lemma expandShellID_eq:
  assumes "strstr tok ''$$'' \<noteq> None" and "NUL \<notin> set tok" and "length tok < 2 ^ 32"
  shows "expandShellID pid tok = Inr (expand_from tok (snprintf_d 7 pid) 0)"
proof -
  define ss where "ss = snprintf_d 7 pid"
  define n where "n = count_from tok 0"
  define out where "out = expand_from tok ss 0"
  define N where "N = newSize tok ss n"
  from assms(1) have occ: "strstr_at tok 0 \<noteq> None"
    by (simp add: strstr_at_def)
  have cnt: "count_loop tok (strstr_at tok 0) 0 = n"
    by (simp add: count_loop_count_from n_def)
  have n2: "2 * n \<le> length tok"
    using count_from_bound [of tok 0] by (simp add: n_def)
  have m: "length ss \<le> 6"
    by (simp add: ss_def snprintf_d_length)
  then have "length ss * n \<le> 6 * n"
    by (rule mult_right_mono) simp
  moreover have "(2::nat) ^ 32 = 4294967296" and "(2::nat) ^ 64 = 18446744073709551616"
    by simp_all
  ultimately have "length tok + length ss * n + 1 < 2 ^ 64"
    using n2 assms(3) by linarith
  from newSize_eq [OF n2 this] have N: "N = length tok + length ss * n + 1 - 2 * n"
    by (simp add: N_def)
  from expand_from_length [of tok ss 0] have "length out + 2 * n \<le> length tok + length ss * n"
    by (simp add: out_def n_def)
  with N have fit: "length out + 1 \<le> length (replicate N (None :: char option))"
    by simp
  from expand_loop_writes [OF occ fit [unfolded out_def], of "[]"]
  have "expand_loop tok ss (malloc N) 0 0 0
      = Inr (map Some out @ [Some NUL] @ drop (length out + 1) (replicate N None))"
    by (simp add: malloc_def out_def)
  moreover have "NUL \<notin> set out"
    unfolding out_def ss_def by (rule expand_from_no_NUL [OF assms(2) snprintf_d_no_NUL])
  ultimately show ?thesis
    by (simp add: expandShellID_def Let_def cnt ss_def [symmetric] N_def [symmetric]
        c_string_terminated out_def)
qed

lemma expand_from_length_exact:
  "ptr \<le> length tok \<Longrightarrow>
   length (expand_from tok ss ptr) + 2 * count_from tok ptr + remainder_from tok ptr
     = (length tok - ptr) + length ss * count_from tok ptr"
proof (induction tok ptr rule: count_from.induct)
  case (1 tok ptr)
  show ?case
  proof (cases "strstr_at tok ptr")
    case None
    then show ?thesis
      by (subst expand_from.simps, subst remainder_from.simps, subst (1 2) count_from.simps) simp
  next
    case (Some p)
    from strstr_at_bound [OF Some] have b: "ptr \<le> p" "p + 2 \<le> length tok"
      by simp_all
    have e: "expand_from tok ss ptr = take (p - ptr) (drop ptr tok) @ ss @ expand_from tok ss (p + 2)"
      by (subst expand_from.simps) (simp add: Some)
    have c: "count_from tok ptr = Suc (count_from tok (p + 2))"
      by (subst count_from.simps) (simp add: Some)
    have r: "remainder_from tok ptr = remainder_from tok (p + 2)"
      by (subst remainder_from.simps) (simp add: Some)
    from b have "length (take (p - ptr) (drop ptr tok)) = p - ptr"
      by simp
    with "1.IH" [OF Some b(2)] b show ?thesis
      unfolding e c r by (simp add: algebra_simps)
  qed
qed

text \<open>
  The length of the result falls short of the length that C1 states by the number of
  characters after the last occurrence.
\<close>

lemma expandShellID_length:
  assumes "strstr tok ''$$'' \<noteq> None" and "NUL \<notin> set tok" and "length tok < 2 ^ 32"
  shows "\<exists>res. expandShellID pid tok = Inr res
      \<and> length res + 2 * count_from tok 0 + remainder_from tok 0
          = length tok + length (snprintf_d 7 pid) * count_from tok 0"
  using expandShellID_eq [OF assms, of pid] expand_from_length_exact [of 0 tok "snprintf_d 7 pid"]
  by simp

text \<open>
  C1 says that \<open>expandShellID\<close> replaces each of the \<open>n\<close> occurrences of \<open>$$\<close> by the
  process id, keeps every other character of the token in order, the suffix after the
  last occurrence included, and so returns a string of the length of the token plus
  \<open>n\<close> times (digits of the process id - 2). The source copies the characters before
  each occurrence and the process id, and returns when \<open>strstr\<close> finds no further
  occurrence: the characters after the last occurrence are never copied. With process
  id 1234 the token \<open>a$$b\<close>, which has one occurrence, becomes \<open>a1234\<close>: 5 characters,
  not 6, and without the \<open>b\<close>. Moreover \<open>SS_PID\<close> has room for six digits only, so
  that a process id of seven digits is cut: with process id 1234567 the token \<open>$$\<close>
  becomes \<open>123456\<close>.
\<close>

theorem expandShellID_drops_suffix:
  "count_loop ''a$$b'' (strstr_at ''a$$b'' 0) 0 = 1
   \<and> expandShellID 1234 ''a$$b'' = Inr ''a1234''
   \<and> length ''a1234'' \<noteq> length ''a$$b'' + 1 * (length (string_of_int 1234) - 2)
   \<and> expandShellID 1234567 ''$$'' = Inr ''123456''"
proof -
  have "count_loop ''a$$b'' (strstr_at ''a$$b'' 0) 0 = 1
      \<and> expandShellID 1234 ''a$$b'' = Inr ''a1234''
      \<and> length ''a1234'' \<noteq> length ''a$$b'' + 1 * (length (string_of_int 1234) - 2)"
    by code_simp
  moreover have "string_of_nat 1234567 = ''1234567''"
    by (simp add: string_of_nat.simps digit_char_def)
  then have "snprintf_d 7 1234567 = ''123456''"
    by (simp add: snprintf_d_def string_of_int_def)
  then have "expandShellID 1234567 ''$$'' = Inr ''123456''"
    using expandShellID_eq [of "''$$''" 1234567]
    by (simp add: NUL_def expand_from.simps [of "''$$''"] strstr_at_def)
  ultimately show ?thesis
    by blast
qed

subsection \<open>C2: a failing \<open>fork\<close>\<close>

text \<open>
  C2 says that after a failing \<open>fork\<close> the interpreter reports the failure and goes
  on, never exiting with a nonzero status. In the source the branch \<open>spawnPid == -1\<close>
  is \<open>perror("fork failed"); exit(1);\<close>: on the line \<open>ls\<close> with a failing \<open>fork\<close>
  the interpreter exits with status 1.
\<close>

theorem fork_failure_exits_counterexample:
  "handleCommand (example_env\<lparr>fork_ret := - 1\<rparr>) initial_world ''ls''
     = Inr (Exits 1 (emit (Perror ''fork failed'') initial_world))"
  by (simp add: handleCommand_def parseInput_def tokens.simps strtok_def store_sentinel_def
      store_arg_def MAX_ARG_SIZE_def executeCommand_def example_env_def)

text \<open>
  C2 as amended: when \<open>fork\<close> fails, \<open>executeCommand\<close> reports \<open>fork failed\<close> with
  \<open>perror\<close>, runs nothing, changes nothing else, and the interpreter exits with
  status 1.
\<close>

theorem fork_failure_exits:
  "fork_ret env = - 1 \<Longrightarrow>
   executeCommand env w argv inFile outFile bg = Inr (Exits 1 (emit (Perror ''fork failed'') w))"
  by (simp add: executeCommand_def)

theorem fork_failure_exits_witness:
  "fork_ret (example_env\<lparr>fork_ret := - 1\<rparr>) = - 1
   \<and> executeCommand (example_env\<lparr>fork_ret := - 1\<rparr>) initial_world [''ls''] None None 0
       = Inr (Exits 1 (emit (Perror ''fork failed'') initial_world))"
  using fork_failure_exits [of "example_env\<lparr>fork_ret := - 1\<rparr>" initial_world "[''ls'']" None None 0]
  by simp

subsection \<open>C3: lines that \<open>parseInput\<close> and \<open>handleCommand\<close> cannot handle\<close>

text \<open>
  C3 says that parsing and dispatch never fail on a non-empty line that is no comment:
  \<open>parseInput\<close> stays within \<open>args\<close> also for more than 512 words, and
  \<open>handleCommand\<close> handles an empty argument vector. The source does neither. On the
  line \<open>&\<close> no argument is stored, \<open>args[0]\<close> is the sentinel, and \<open>handleCommand\<close>
  passes this null pointer to \<open>strcmp\<close>. On a line of 512 words \<open>a\<close> (1023
  characters, which \<open>fgets\<close> reads in one piece) the words fill \<open>args[0]\<close> to
  \<open>args[511]\<close> and the sentinel is stored in \<open>args[512]\<close>, beyond the array.
\<close>

theorem handleCommand_undefined_behaviour:
  "handleCommand env initial_world ''&'' = Inl NullDereference
   \<and> length (concat (replicate 511 ''a '') @ ''a'') < MAX_INPUT_SIZE
   \<and> parseInput 0 1234 (concat (replicate 511 ''a '') @ ''a'')
         \<lparr>args = [], inputFile = None, outputFile = None, background = 0\<rparr>
       = Inl WriteOutOfBounds"
proof -
  let ?st = "\<lparr>args = [], inputFile = None, outputFile = None, background = 0\<rparr>"
  have "handleCommand env initial_world ''&'' = Inl NullDereference"
    by (simp add: handleCommand_def parseInput_def tokens.simps strtok_def store_sentinel_def
        MAX_ARG_SIZE_def initial_world_def)
  moreover have "length (concat (replicate 511 ''a '') @ ''a'') < MAX_INPUT_SIZE"
    by (simp add: MAX_INPUT_SIZE_def length_concat sum_list_replicate)
  moreover have "\<forall>t \<in> set (replicate (Suc 511) ''a''). plain t"
    by (simp add: plain_def)
  then have "parse_loop 0 1234 (replicate (Suc 511) ''a'') ?st
      = Inr (?st\<lparr>args := replicate (Suc 511) ''a''\<rparr>)"
    by (subst parse_loop_plain) (simp_all add: MAX_ARG_SIZE_def)
  then have "parseInput 0 1234 (concat (replicate 511 ''a '') @ ''a'') ?st = Inl WriteOutOfBounds"
    by (simp add: parseInput_def tokens_words store_sentinel_def MAX_ARG_SIZE_def)
  ultimately show ?thesis
    by simp
qed

subsection \<open>The wait status macros\<close>

lemma WTERMSIG_mod: "WTERMSIG status = status mod 128"
proof -
  have "(0x7f::int) = mask 7"
    by (simp add: mask_eq_exp_minus_1)
  then have "status AND 0x7f = take_bit 7 status"
    by (simp only: take_bit_eq_mask)
  then show ?thesis
    by (simp add: WTERMSIG_def take_bit_int_def)
qed

lemma WEXITSTATUS_mod: "WEXITSTATUS status = (status div 256) mod 256"
proof -
  have "(0xff00::int) = push_bit 8 (mask 8)"
    by (simp add: mask_eq_exp_minus_1 push_bit_eq_mult)
  then have "drop_bit 8 (status AND 0xff00) = drop_bit 8 status AND drop_bit 8 (push_bit 8 (mask 8 :: int))"
    by (simp only: drop_bit_and)
  also have "drop_bit 8 (push_bit 8 (mask 8 :: int)) = mask 8"
    by (simp add: drop_bit_push_bit_int)
  also have "drop_bit 8 status AND mask 8 = take_bit 8 (drop_bit 8 status)"
    by (simp only: take_bit_eq_mask)
  finally show ?thesis
    by (simp add: WEXITSTATUS_def take_bit_int_def drop_bit_eq_div)
qed

lemma WIFSIGNALED_iff: "WIFSIGNALED status \<longleftrightarrow> 1 \<le> status mod 128 \<and> status mod 128 \<le> 126"
proof -
  define t where "t = status mod 128"
  have t: "0 \<le> t" "t < 128"
    by (simp_all add: t_def)
  have "status AND 0x7f = t"
    using WTERMSIG_mod [of status] by (simp add: WTERMSIG_def t_def)
  then have "WIFSIGNALED status \<longleftrightarrow> 0 < sint (signed_drop_bit 1 (word_of_int (t + 1) :: 8 word))"
    by (simp only: WIFSIGNALED_def)
  moreover have "sint (word_of_int (t + 1) :: 8 word) = signed_take_bit 7 (t + 1)"
    by (subst sint_sbintrunc') simp
  ultimately have w: "WIFSIGNALED status \<longleftrightarrow> 0 < drop_bit 1 (signed_take_bit 7 (t + 1))"
    by (simp only: sint_signed_drop_bit_eq)
  show ?thesis
  proof (cases "t = 127")
    case True
    with w show ?thesis
      by (simp add: t_def [symmetric])
  next
    case False
    with t have "signed_take_bit 7 (t + 1) = t + 1"
      by (intro signed_take_bit_int_eq_self) simp_all
    with w have "WIFSIGNALED status \<longleftrightarrow> 0 < (t + 1) div 2"
      by (simp add: drop_bit_eq_div)
    with t False show ?thesis
      unfolding t_def [symmetric] by presburger
  qed
qed

lemma WEXITSTATUS_range: "0 \<le> WEXITSTATUS status \<and> WEXITSTATUS status \<le> 255"
  unfolding WEXITSTATUS_mod by simp

lemma W_EXITCODE_exit:
  assumes "0 \<le> k" "k < 256"
  shows "\<not> WIFSIGNALED (W_EXITCODE k 0)" and "WEXITSTATUS (W_EXITCODE k 0) = k"
  using assms by (simp_all add: WIFSIGNALED_iff WEXITSTATUS_mod W_EXITCODE_def push_bit_eq_mult)

lemma W_EXITCODE_signal:
  assumes "1 \<le> s" "s \<le> 126"
  shows "WIFSIGNALED (W_EXITCODE 0 s)" and "WTERMSIG (W_EXITCODE 0 s) = s"
  using assms by (simp_all add: WIFSIGNALED_iff WTERMSIG_mod W_EXITCODE_def)

lemma W_EXITCODE_signal_core:
  assumes "1 \<le> s" "s \<le> 126"
  shows "WIFSIGNALED (W_EXITCODE 0 s OR WCOREFLAG)" and "WTERMSIG (W_EXITCODE 0 s OR WCOREFLAG) = s"
proof -
  have "(s OR 0x80) mod 128 = take_bit 7 (s OR 0x80)"
    by (simp add: take_bit_int_def)
  also have "\<dots> = take_bit 7 s OR take_bit 7 0x80"
    by (simp only: take_bit_or)
  also have "\<dots> = s"
    using assms by (simp add: take_bit_int_def)
  finally have "(s OR 0x80) mod 128 = s" .
  with assms show "WIFSIGNALED (W_EXITCODE 0 s OR WCOREFLAG)"
    and "WTERMSIG (W_EXITCODE 0 s OR WCOREFLAG) = s"
    by (simp_all add: WIFSIGNALED_iff WTERMSIG_mod W_EXITCODE_def WCOREFLAG_def)
qed

subsection \<open>C8: the reaper\<close>

lemma find_terminated:
  "List.find (\<lambda>(p, s). (- 1 = (- 1::int) \<or> p = - 1) \<and> s \<noteq> None) cs =
     (case terminated cs of [] \<Rightarrow> None | (p, status) # ts \<Rightarrow> Some (p, Some status))"
  by (induction cs rule: terminated.induct) simp_all

lemma terminated_remove1:
  "terminated cs = (p, status) # ts \<Longrightarrow> terminated (remove1 (p, Some status) cs) = ts"
  by (induction cs rule: terminated.induct) auto

lemma running_remove1: "running (remove1 (p, Some status) cs) = running cs"
  by (induction cs rule: running.induct) auto

lemma running_no_terminated: "terminated cs = [] \<Longrightarrow> running cs = cs"
  by (induction cs rule: terminated.induct) auto


lemma waitpid_any_nohang:
  "waitpid cs (- 1) True =
     (case terminated cs of
        [] \<Rightarrow> (if cs = [] then No_child else No_change, cs)
      | (p, status) # ts \<Rightarrow> (Reaped p status, remove1 (p, Some status) cs))"
  unfolding waitpid_def find_terminated
  by (cases cs) (auto split: list.splits simp: list_ex_iff)

lemma sigchld_loop_drains:
  "sigchld_loop w =
     Some (w\<lparr>children := running (children w),
             trace := trace w @ map (\<lambda>(p, status). Stdout (sigchld_report p status)) (terminated (children w))\<rparr>)"
proof (induction "length (terminated (children w))" arbitrary: w)
  case 0
  then have t: "terminated (children w) = []"
    by simp
  then show ?case
    by (subst sigchld_loop.simps) (simp add: waitpid_any_nohang running_no_terminated)
next
  case (Suc n)
  then obtain p status ts where t: "terminated (children w) = (p, status) # ts"
    by (cases "terminated (children w)") auto
  let ?w1 = "emit (Stdout (sigchld_report p status)) (w\<lparr>children := remove1 (p, Some status) (children w)\<rparr>)"
  have t1: "terminated (children ?w1) = ts"
    using terminated_remove1 [OF t] by (simp add: emit_def)
  with Suc.hyps(2) t have "n = length (terminated (children ?w1))"
    by simp
  from Suc.hyps(1) [OF this] t1
  have "sigchld_loop ?w1 =
     Some (?w1\<lparr>children := running (children ?w1),
             trace := trace ?w1 @ map (\<lambda>(p, status). Stdout (sigchld_report p status)) ts\<rparr>)"
    by simp
  moreover have "sigchld_loop w = sigchld_loop ?w1"
    by (subst sigchld_loop.simps) (simp add: waitpid_any_nohang t)
  ultimately show ?case
    by (simp add: emit_def t running_remove1)
qed


subsection \<open>The Execution Status follows the foreground waits\<close>

lemma last_foreground_append:
  "last_foreground (es @ es') =
     (case last_foreground es' of Some status \<Rightarrow> Some status | None \<Rightarrow> last_foreground es)"
  by (induction es) (auto split: option.splits)

lemma status_inv_emit:
  "last_foreground [e] = None \<Longrightarrow> status_inv (emit e w) = status_inv w"
  by (simp add: status_inv_def emit_def last_foreground_append split: option.splits)

lemma status_inv_children: "status_inv (w\<lparr>children := cs\<rparr>) = status_inv w"
  by (simp add: status_inv_def split: option.splits)

lemma status_inv_mode: "status_inv (w\<lparr>foreground_only_mode := m\<rparr>) = status_inv w"
  by (simp add: status_inv_def split: option.splits)

lemma status_inv_trace:
  "last_foreground es = None \<Longrightarrow> status_inv (w\<lparr>trace := trace w @ es\<rparr>) = status_inv w"
  by (simp add: status_inv_def last_foreground_append split: option.splits)

lemma handleCd_inv: "status_inv (handleCd env w argv) = status_inv w"
  by (simp add: handleCd_def Let_def status_inv_emit split: list.splits)

lemma handleStatus_inv: "status_inv (handleStatus w) = status_inv w"
  by (simp add: handleStatus_def status_inv_emit)

lemma handle_sigtstp_inv: "status_inv (handle_sigtstp w) = status_inv w"
  by (simp add: handle_sigtstp_def write_stdout_def status_inv_emit status_inv_mode)

lemma last_foreground_reports:
  "last_foreground (map (\<lambda>(p, status). Stdout (sigchld_report p status)) ts) = None"
  by (induction ts) auto

lemma handle_sigchld_inv: "handle_sigchld w = Some w' \<Longrightarrow> status_inv w' = status_inv w"
  by (auto simp: handle_sigchld_def sigchld_loop_drains status_inv_def last_foreground_append
      last_foreground_reports split: option.splits)

lemma child_never_returns: "child env w argv inFile outFile \<noteq> Inr (Returns w')"
  by (auto simp: child_def redirect_def Let_def split: option.splits sum.splits list.splits if_splits)

lemma store_status_inv: "status_inv (store_status pid status w)"
  by (simp add: store_status_def Let_def status_inv_def emit_def last_foreground_append)

lemma store_status_trace:
  "trace (store_status pid status w) = trace w @ [Foreground_wait pid status]"
  by (simp add: store_status_def Let_def emit_def)


lemma executeCommand_foreground_cases:
  assumes "executeCommand env w argv inFile outFile bg = Inr (Returns w')"
    and "fork_ret env \<noteq> - 1" and "fork_ret env \<noteq> 0"
    and "\<not> (bg \<noteq> 0 \<and> foreground_only_mode w = 0)"
  shows "\<exists>status w0. w' = store_status (fork_ret env) status w0"
proof (cases "wait_status env")
  case (Some status)
  with assms have "w' = store_status (fork_ret env) status w"
    by (auto simp: executeCommand_def Let_def)
  then show ?thesis by blast
next
  case None
  with assms show ?thesis
    by (auto simp: executeCommand_def Let_def
        split: option.splits prod.splits wait_ret.splits)
qed

lemma executeCommand_inv:
  assumes "executeCommand env w argv inFile outFile bg = Inr (Returns w')" and "status_inv w"
  shows "status_inv w'"
proof (cases "fork_ret env = - 1 \<or> fork_ret env = 0")
  case True
  with assms(1) child_never_returns [of env w argv inFile outFile w'] show ?thesis
    by (auto simp: executeCommand_def Let_def split: if_splits)
next
  case False
  show ?thesis
  proof (cases "bg \<noteq> 0 \<and> foreground_only_mode w = 0")
    case True
    with False assms show ?thesis
      by (auto simp: executeCommand_def Let_def status_inv_emit status_inv_children)
  next
    case bgFalse: False
    with False executeCommand_foreground_cases [OF assms(1)] show ?thesis
      by (auto simp: store_status_inv)
  qed
qed

lemma handleCommand_inv:
  assumes "handleCommand env w input = Inr (Returns w')" and "status_inv w"
  shows "status_inv w'"
  using assms
  by (auto simp: handleCommand_def handleExit_def Let_def handleCd_inv handleStatus_inv
      split: sum.splits list.splits if_splits dest: executeCommand_inv)

lemma main_iteration_inv:
  assumes "main_iteration env w input = Inr (Returns w')" and "status_inv w"
  shows "status_inv w'"
  using assms
  by (auto simp: main_iteration_def Let_def status_inv_emit split: list.splits if_splits
      dest!: handleCommand_inv)

lemma occur_inv:
  assumes "occur w x = Inr (Returns w')" and "status_inv w"
  shows "status_inv w'"
proof (cases x)
  case (Line env input)
  with assms show ?thesis
    by (auto dest: main_iteration_inv)
next
  case Deliver_SIGTSTP
  with assms show ?thesis
    by (auto simp: handle_sigtstp_inv)
next
  case Deliver_SIGCHLD
  with assms show ?thesis
    by (auto simp: handle_sigchld_inv split: option.splits)
next
  case (Child_terminates pid status)
  with assms show ?thesis
    by (auto simp: status_inv_children)
qed

lemma run_inv:
  "run w xs = Inr (Returns w') \<Longrightarrow> status_inv w \<Longrightarrow> status_inv w'"
proof (induction xs arbitrary: w)
  case Nil
  then show ?case by simp
next
  case (Cons x xs)
  from Cons.prems(1) obtain w1 where 1: "occur w x = Inr (Returns w1)" and 2: "run w1 xs = Inr (Returns w')"
    by (auto split: sum.splits result.splits)
  from occur_inv [OF 1 Cons.prems(2)] Cons.IH [OF 2] show ?case
    by simp
qed

lemma status_inv_initial: "status_inv initial_world"
  by (simp add: status_inv_def initial_world_def)

lemma reachable_status_inv: "run initial_world xs = Inr (Returns w) \<Longrightarrow> status_inv w"
  by (rule run_inv [OF _ status_inv_initial])

subsection \<open>C5: what \<open>status\<close> reports\<close>

text \<open>
  In every state that the interpreter reaches from its start, \<open>status\<close> reports the
  value that the most recent foreground wait left in \<open>status\<close>: \<open>exit value 0\<close> when
  there was no such wait, \<open>exit value k\<close> for the status of an exit with code \<open>k\<close>,
  and \<open>terminated by signal s\<close> for the status of a termination by signal \<open>s\<close>.
  This is the outcome of the command when \<open>waitpid(spawnPid, &status, 0)\<close> has reaped
  the child itself, and only then.
\<close>

lemma status_reports_value_read:
  assumes "run initial_world xs = Inr (Returns w)"
  shows "(last_foreground (trace w) = None \<longrightarrow>
            handleStatus w = emit (Stdout (''exit value: 0'' @ nl)) w)
       \<and> (0 \<le> k \<and> k < 256 \<and> last_foreground (trace w) = Some (W_EXITCODE k 0) \<longrightarrow>
            handleStatus w = emit (Stdout (''exit value: '' @ string_of_int k @ nl)) w)
       \<and> (1 \<le> s \<and> s \<le> 126
            \<and> (last_foreground (trace w) = Some (W_EXITCODE 0 s)
                \<or> last_foreground (trace w) = Some (W_EXITCODE 0 s OR WCOREFLAG)) \<longrightarrow>
            handleStatus w = emit (Stdout (''terminated by signal '' @ string_of_int s @ nl)) w)"
proof -
  have inv: "status_inv w"
    using assms by (rule reachable_status_inv)
  have none: "last_foreground (trace w) = None \<longrightarrow>
      handleStatus w = emit (Stdout (''exit value: 0'' @ nl)) w"
  proof
    assume "last_foreground (trace w) = None"
    with inv have "lastExitStatus w = 0"
      by (simp add: status_inv_def)
    moreover have "string_of_int 0 = ''0''"
      by (simp add: string_of_int_def string_of_nat.simps digit_char_def)
    ultimately show "handleStatus w = emit (Stdout (''exit value: 0'' @ nl)) w"
      by (simp add: handleStatus_def)
  qed
  have exit: "handleStatus w = emit (Stdout (''exit value: '' @ string_of_int k @ nl)) w"
    if k: "0 \<le> k" "k < 256" and l: "last_foreground (trace w) = Some (W_EXITCODE k 0)"
  proof -
    from inv l W_EXITCODE_exit(1) [OF k] have "lastExitStatus w = WEXITSTATUS (W_EXITCODE k 0)"
      by (simp add: status_inv_def)
    with W_EXITCODE_exit(2) [OF k] have "lastExitStatus w = k"
      by simp
    with k show ?thesis
      by (simp add: handleStatus_def)
  qed
  have sig: "handleStatus w = emit (Stdout (''terminated by signal '' @ string_of_int s @ nl)) w"
    if s: "1 \<le> s" "s \<le> 126" and l: "last_foreground (trace w) = Some (W_EXITCODE 0 s)
        \<or> last_foreground (trace w) = Some (W_EXITCODE 0 s OR WCOREFLAG)"
  proof -
    from l obtain status where st: "last_foreground (trace w) = Some status"
      and "WIFSIGNALED status" and "WTERMSIG status = s"
      using W_EXITCODE_signal [OF s] W_EXITCODE_signal_core [OF s] by blast
    with inv have "lastExitStatus w = - 1" and "lastTerminalSignal w = s"
      by (simp_all add: status_inv_def)
    then show ?thesis
      by (simp add: handleStatus_def)
  qed
  from none exit sig show ?thesis
    by blast
qed

lemma string_of_int_0: "string_of_int 0 = ''0''"
  by (simp add: string_of_int_def string_of_nat.simps digit_char_def)

lemma string_of_int_9: "string_of_int 9 = ''9''"
  by (simp add: string_of_int_def string_of_nat.simps digit_char_def)

lemma string_of_int_16: "string_of_int 16 = ''16''"
  by (simp add: string_of_int_def string_of_nat.simps digit_char_def)

lemma string_of_int_77: "string_of_int 77 = ''77''"
  by (simp add: string_of_int_def string_of_nat.simps digit_char_def)

lemma wait_macros_0: "W_EXITCODE 0 0 = 0" "\<not> WIFSIGNALED 0" "WEXITSTATUS 0 = 0"
  by (simp_all add: W_EXITCODE_def WIFSIGNALED_def WEXITSTATUS_def WTERMSIG_def)

lemma wait_macros_16: "WIFSIGNALED 16" "WTERMSIG 16 = 16"
  by (simp_all add: WIFSIGNALED_def WTERMSIG_def)

text \<open>
  C5 does not hold of the code. The foreground command \<open>sleep 1\<close> exits with code 0,
  and \<open>handle_sigchld\<close> reaps it before the \<open>waitpid\<close> of \<open>executeCommand\<close> looks for
  it: the handler prints that a background process has exited with status 0, the
  \<open>waitpid\<close> of \<open>executeCommand\<close> stores nothing, and the statements after it read 16
  in \<open>status\<close>. The command \<open>status\<close>, given next, prints \<open>terminated by signal 16\<close>
  where the outcome of the most recent foreground command is an exit with code 0.
\<close>

theorem status_reports_indeterminate_value:
  "run initial_world [Line reaped_first_env ''sleep 1'', Line example_env ''status'']
     = Inr (Returns (initial_world
         \<lparr>lastExitStatus := - 1, lastTerminalSignal := 16,
          trace := [Stdout (''smallsh$'' @ nl), Stdout '': '',
             Stdout (''Background process with PID 77 exited with status 0'' @ nl),
             Foreground_wait 77 16, Stdout '': '',
             Stdout (''terminated by signal 16'' @ nl)]\<rparr>))"
proof -
  have p1: "parseInput 0 1234 ''sleep 1''
      \<lparr>args = [], inputFile = None, outputFile = None, background = 0\<rparr>
    = Inr \<lparr>args = [''sleep'', ''1''], inputFile = None, outputFile = None, background = 0\<rparr>"
    by code_simp
  have p2: "parseInput 0 1234 ''status''
      \<lparr>args = [], inputFile = None, outputFile = None, background = 0\<rparr>
    = Inr \<lparr>args = [''status''], inputFile = None, outputFile = None, background = 0\<rparr>"
    by code_simp
  have e: "executeCommand reaped_first_env (emit (Stdout '': '') initial_world)
      [''sleep'', ''1''] None None 0
     = Inr (Returns (initial_world
         \<lparr>lastExitStatus := - 1, lastTerminalSignal := 16,
          trace := [Stdout (''smallsh$'' @ nl), Stdout '': '',
             Stdout (''Background process with PID 77 exited with status 0'' @ nl),
             Foreground_wait 77 16]\<rparr>))"
    by (simp add: executeCommand_def reaped_first_env_def example_env_def Let_def
        handle_sigchld_def sigchld_loop_drains emit_def initial_world_def waitpid_def
        store_status_def sigchld_report_def wait_macros_0 wait_macros_16
        string_of_int_77 string_of_int_0)
  have g: "getpid reaped_first_env = 1234" "getpid example_env = 1234"
    by (simp_all add: reaped_first_env_def example_env_def)
  have f: "foreground_only_mode (emit (Stdout '': '') initial_world) = 0"
    by (simp add: emit_def initial_world_def)
  have m1: "main_iteration reaped_first_env initial_world ''sleep 1''
     = Inr (Returns (initial_world
         \<lparr>lastExitStatus := - 1, lastTerminalSignal := 16,
          trace := [Stdout (''smallsh$'' @ nl), Stdout '': '',
             Stdout (''Background process with PID 77 exited with status 0'' @ nl),
             Foreground_wait 77 16]\<rparr>))"
    by (simp add: main_iteration_def handleCommand_def Let_def g f p1 e)
  have m2: "main_iteration example_env (initial_world
         \<lparr>lastExitStatus := - 1, lastTerminalSignal := 16,
          trace := [Stdout (''smallsh$'' @ nl), Stdout '': '',
             Stdout (''Background process with PID 77 exited with status 0'' @ nl),
             Foreground_wait 77 16]\<rparr>) ''status''
     = Inr (Returns (initial_world
         \<lparr>lastExitStatus := - 1, lastTerminalSignal := 16,
          trace := [Stdout (''smallsh$'' @ nl), Stdout '': '',
             Stdout (''Background process with PID 77 exited with status 0'' @ nl),
             Foreground_wait 77 16, Stdout '': '',
             Stdout (''terminated by signal 16'' @ nl)]\<rparr>))"
    by (simp add: main_iteration_def handleCommand_def Let_def g p2 handleStatus_def
        emit_def initial_world_def string_of_int_16)
  show ?thesis
    by (simp only: run.simps occur.simps m1 m2 sum.case result.case)
qed

subsection \<open>C10: the sentinel -1\<close>

text \<open>
  In every state reached, \<open>lastExitStatus\<close> is -1 exactly when the value that the most
  recent foreground wait left in \<open>status\<close> is that of a termination by signal;
  otherwise it is between 0 and 255. So the test of \<open>handleStatus\<close> against -1 chooses
  the report that fits that value.
\<close>

lemma sentinel_encodes_value_read:
  assumes "run initial_world xs = Inr (Returns w)"
  shows "(lastExitStatus w = - 1 \<longleftrightarrow>
            (\<exists>status. last_foreground (trace w) = Some status \<and> WIFSIGNALED status))
       \<and> (lastExitStatus w \<noteq> - 1 \<longrightarrow> 0 \<le> lastExitStatus w \<and> lastExitStatus w \<le> 255)
       \<and> (\<forall>status. last_foreground (trace w) = Some status \<longrightarrow>
            handleStatus w = emit (Stdout
              (if WIFSIGNALED status
               then ''terminated by signal '' @ string_of_int (WTERMSIG status) @ nl
               else ''exit value: '' @ string_of_int (WEXITSTATUS status) @ nl)) w)"
proof -
  have inv: "status_inv w"
    using assms by (rule reachable_status_inv)
  show ?thesis
  proof (cases "last_foreground (trace w)")
    case None
    with inv show ?thesis
      by (simp add: status_inv_def)
  next
    case (Some status)
    show ?thesis
    proof (cases "WIFSIGNALED status")
      case True
      with inv Some show ?thesis
        by (simp add: status_inv_def handleStatus_def)
    next
      case False
      with inv Some have "lastExitStatus w = WEXITSTATUS status"
        by (simp add: status_inv_def)
      with WEXITSTATUS_range [of status] False Some show ?thesis
        by (simp add: handleStatus_def)
    qed
  qed
qed

text \<open>
  C10 does not hold of the code. When \<open>handle_sigchld\<close> reaps the foreground child
  before the \<open>waitpid\<close> of \<open>executeCommand\<close> looks for it, the statements after that
  \<open>waitpid\<close> work on the value that \<open>status\<close> happens to hold. A child that exits
  with code 0, while \<open>status\<close> holds 16, leaves -1 in \<open>lastExitStatus\<close>; a child that
  signal 9 terminates, while \<open>status\<close> holds 0, leaves 0 there and the sentinel is
  not stored.
\<close>

theorem sentinel_stored_after_normal_exit:
  "\<not> WIFSIGNALED (W_EXITCODE 0 0)
   \<and> executeCommand reaped_first_env initial_world [''sleep'', ''1''] None None 0
     = Inr (Returns (initial_world
         \<lparr>lastExitStatus := - 1, lastTerminalSignal := 16,
          trace := [Stdout (''smallsh$'' @ nl),
             Stdout (''Background process with PID 77 exited with status 0'' @ nl),
             Foreground_wait 77 16]\<rparr>))
   \<and> WIFSIGNALED (W_EXITCODE 0 9)
   \<and> executeCommand killed_first_env initial_world [''sleep'', ''1''] None None 0
     = Inr (Returns (initial_world
         \<lparr>lastExitStatus := 0,
          trace := [Stdout (''smallsh$'' @ nl),
             Stdout (''Background process with PID 77 terminated by signal 9'' @ nl),
             Foreground_wait 77 0]\<rparr>))"
proof -
  have 9: "WIFSIGNALED (W_EXITCODE 0 9)" "WTERMSIG (W_EXITCODE 0 9) = 9"
    by (simp_all add: W_EXITCODE_signal)
  have a: "executeCommand reaped_first_env initial_world [''sleep'', ''1''] None None 0
     = Inr (Returns (initial_world
         \<lparr>lastExitStatus := - 1, lastTerminalSignal := 16,
          trace := [Stdout (''smallsh$'' @ nl),
             Stdout (''Background process with PID 77 exited with status 0'' @ nl),
             Foreground_wait 77 16]\<rparr>))"
    by (simp add: executeCommand_def reaped_first_env_def example_env_def Let_def
        handle_sigchld_def sigchld_loop_drains emit_def initial_world_def waitpid_def
        store_status_def sigchld_report_def wait_macros_0 wait_macros_16
        string_of_int_77 string_of_int_0)
  have b: "executeCommand killed_first_env initial_world [''sleep'', ''1''] None None 0
     = Inr (Returns (initial_world
         \<lparr>lastExitStatus := 0,
          trace := [Stdout (''smallsh$'' @ nl),
             Stdout (''Background process with PID 77 terminated by signal 9'' @ nl),
             Foreground_wait 77 0]\<rparr>))"
    by (simp add: executeCommand_def killed_first_env_def example_env_def Let_def
        handle_sigchld_def sigchld_loop_drains emit_def initial_world_def waitpid_def
        store_status_def sigchld_report_def wait_macros_0 9
        string_of_int_77 string_of_int_9)
  from a b 9(1) show ?thesis
    by (simp add: wait_macros_0)
qed

subsection \<open>C6: who writes the Execution Status\<close>

lemma same_status_refl: "same_status w w"
  by (simp add: same_status_def)

lemma same_status_emit: "same_status w (emit e w') = same_status w w'"
  by (simp add: same_status_def emit_def)

lemma handleCd_same: "same_status w (handleCd env w argv)"
  by (simp add: handleCd_def Let_def same_status_emit same_status_refl split: list.splits)

lemma handleStatus_same: "same_status w (handleStatus w)"
  by (simp add: handleStatus_def same_status_emit same_status_refl)

lemma handle_sigtstp_same: "same_status w (handle_sigtstp w)"
  by (simp add: handle_sigtstp_def write_stdout_def same_status_def emit_def)

lemma handle_sigchld_same: "handle_sigchld w = Some w' \<Longrightarrow> same_status w w'"
  by (auto simp: handle_sigchld_def sigchld_loop_drains same_status_def)

lemma executeCommand_same:
  assumes "executeCommand env w argv inFile outFile bg = Inr (Returns w')"
  shows "same_status w w' \<or> (\<exists>pid status. last (trace w') = Foreground_wait pid status)"
proof (cases "fork_ret env = - 1 \<or> fork_ret env = 0")
  case True
  with assms child_never_returns [of env w argv inFile outFile w'] show ?thesis
    by (auto simp: executeCommand_def Let_def split: if_splits)
next
  case False
  show ?thesis
  proof (cases "bg \<noteq> 0 \<and> foreground_only_mode w = 0")
    case True
    with False assms show ?thesis
      by (auto simp: executeCommand_def Let_def same_status_def emit_def)
  next
    case bgFalse: False
    with False executeCommand_foreground_cases [OF assms]
    have "\<exists>pid status. last (trace w') = Foreground_wait pid status"
      by (auto simp: store_status_trace)
    then show ?thesis ..
  qed
qed

lemma handleCommand_cases:
  assumes "handleCommand env w input = Inr (Returns w')"
  obtains argv where "w' = handleCd env w argv"
  | "w' = handleStatus w"
  | argv inFile outFile bg where "executeCommand env w argv inFile outFile bg = Inr (Returns w')"
proof -
  from assms obtain p where p: "parseInput (foreground_only_mode w) (getpid env) input
      \<lparr>args = [], inputFile = None, outputFile = None, background = 0\<rparr> = Inr p"
    by (cases "parseInput (foreground_only_mode w) (getpid env) input
      \<lparr>args = [], inputFile = None, outputFile = None, background = 0\<rparr>")
      (simp_all add: handleCommand_def)
  with assms obtain a0 rest where a: "args p = a0 # rest"
    by (cases "args p") (simp_all add: handleCommand_def)
  show ?thesis
  proof (cases "a0 = ''exit''")
    case True
    with assms p a show ?thesis
      by (simp add: handleCommand_def handleExit_def Let_def split: if_splits)
  next
    case notExit: False
    show ?thesis
    proof (cases "a0 = ''cd''")
      case True
      with assms p a have "w' = handleCd env w (args p)"
        by (simp add: handleCommand_def)
      then show ?thesis by (rule that(1))
    next
      case notCd: False
      show ?thesis
      proof (cases "a0 = ''status''")
        case True
        with assms p a have "w' = handleStatus w"
          by (simp add: handleCommand_def)
        then show ?thesis by (rule that(2))
      next
        case False
        with notExit notCd assms p a
        have "executeCommand env w (args p) (inputFile p) (outputFile p) (background p)
            = Inr (Returns w')"
          by (simp add: handleCommand_def)
        then show ?thesis by (rule that(3))
      qed
    qed
  qed
qed

lemma handleCommand_same:
  assumes "handleCommand env w input = Inr (Returns w')"
  shows "same_status w w' \<or> (\<exists>pid status. last (trace w') = Foreground_wait pid status)"
  using assms
proof (cases rule: handleCommand_cases)
  case (1 argv)
  then show ?thesis by (simp add: handleCd_same)
next
  case 2
  then show ?thesis by (simp add: handleStatus_same)
next
  case (3 argv inFile outFile bg)
  then show ?thesis by (rule executeCommand_same)
qed

lemma main_iteration_cases:
  assumes "main_iteration env w input = Inr (Returns w')"
  obtains "w' = emit (Stdout '': '') w"
  | "handleCommand env (emit (Stdout '': '') w) input = Inr (Returns w')"
proof (cases input)
  case Nil
  with assms have "w' = emit (Stdout '': '') w"
    by (simp add: main_iteration_def Let_def)
  then show ?thesis by (rule that(1))
next
  case (Cons c cs)
  show ?thesis
  proof (cases "c = CHR ''#''")
    case True
    with Cons assms have "w' = emit (Stdout '': '') w"
      by (simp add: main_iteration_def Let_def)
    then show ?thesis by (rule that(1))
  next
    case False
    with Cons assms have "handleCommand env (emit (Stdout '': '') w) input = Inr (Returns w')"
      by (simp add: main_iteration_def Let_def)
    then show ?thesis by (rule that(2))
  qed
qed

lemma main_iteration_same:
  assumes "main_iteration env w input = Inr (Returns w')"
  shows "same_status w w' \<or> (\<exists>pid status. last (trace w') = Foreground_wait pid status)"
  using assms
proof (cases rule: main_iteration_cases)
  case 1
  then show ?thesis
    by (simp add: same_status_def emit_def)
next
  case 2
  have "same_status w w' = same_status (emit (Stdout '': '') w) w'"
    by (simp add: same_status_def emit_def)
  with handleCommand_same [OF 2] show ?thesis
    by simp
qed

lemma occur_same:
  assumes "occur w x = Inr (Returns w')"
  shows "same_status w w' \<or> (\<exists>pid status. last (trace w') = Foreground_wait pid status)"
proof (cases x)
  case (Line env input)
  with assms have "main_iteration env w input = Inr (Returns w')"
    by simp
  then show ?thesis by (rule main_iteration_same)
next
  case Deliver_SIGTSTP
  with assms have "w' = handle_sigtstp w"
    by simp
  with handle_sigtstp_same [of w] show ?thesis
    by simp
next
  case Deliver_SIGCHLD
  with assms have "handle_sigchld w = Some w'"
    by (cases "handle_sigchld w") simp_all
  from handle_sigchld_same [OF this] show ?thesis
    by simp
next
  case (Child_terminates pid status)
  with assms show ?thesis
    by (auto simp: same_status_def)
qed

text \<open>
  C6: \<open>handle_sigchld\<close> leaves \<open>lastExitStatus\<close> and \<open>lastTerminalSignal\<close> as they
  are, so \<open>status\<close> prints the same before and after it; and whatever happens to the
  interpreter, the two variables change only where \<open>executeCommand\<close> has waited for a
  foreground child.
\<close>

theorem reaper_leaves_execution_status:
  "(handle_sigchld w = Some w' \<longrightarrow>
      lastExitStatus w' = lastExitStatus w \<and> lastTerminalSignal w' = lastTerminalSignal w
      \<and> last (trace (handleStatus w')) = last (trace (handleStatus w)))
   \<and> (occur w x = Inr (Returns w'') \<longrightarrow>
      (lastExitStatus w'' = lastExitStatus w \<and> lastTerminalSignal w'' = lastTerminalSignal w)
      \<or> (\<exists>pid status. last (trace w'') = Foreground_wait pid status))"
proof -
  have "lastExitStatus w' = lastExitStatus w \<and> lastTerminalSignal w' = lastTerminalSignal w
      \<and> last (trace (handleStatus w')) = last (trace (handleStatus w))"
    if "handle_sigchld w = Some w'"
    using handle_sigchld_same [OF that] by (simp add: same_status_def handleStatus_def emit_def)
  moreover have "(lastExitStatus w'' = lastExitStatus w \<and> lastTerminalSignal w'' = lastTerminalSignal w)
      \<or> (\<exists>pid status. last (trace w'') = Foreground_wait pid status)"
    if "occur w x = Inr (Returns w'')"
    using occur_same [OF that] by (simp add: same_status_def)
  ultimately show ?thesis
    by blast
qed

theorem reaper_leaves_execution_status_witness:
  "\<exists>w'. handle_sigchld reaper_example = Some w'
      \<and> occur reaper_example Deliver_SIGCHLD = Inr (Returns w')
      \<and> children w' = [(78, None)]
      \<and> lastExitStatus w' = 7 \<and> lastTerminalSignal w' = 0
      \<and> last (trace (handleStatus w')) = last (trace (handleStatus reaper_example))"
proof -
  obtain w' where h: "handle_sigchld reaper_example = Some w'"
    and c: "children w' = [(78, None)]"
    by (simp add: handle_sigchld_def sigchld_loop_drains reaper_example_def)
  then have o: "occur reaper_example Deliver_SIGCHLD = Inr (Returns w')"
    by simp
  have "lastExitStatus reaper_example = 7" and "lastTerminalSignal reaper_example = 0"
    by (simp_all add: reaper_example_def initial_world_def)
  with reaper_leaves_execution_status [of reaper_example w' Deliver_SIGCHLD w'] h o c
  show ?thesis
    by auto
qed

subsection \<open>C9: signal dispositions in the child\<close>

lemma redirect_Inr:
  "redirect env file flags target msg w = Inr w' \<Longrightarrow>
     \<exists>es. trace w' = trace w @ es \<and> \<not> list_ex is_signal_call es \<and> dispositions w' = dispositions w"
  by (auto simp: redirect_def emit_def Let_def split: option.splits if_splits)

lemma redirect_Inl:
  "redirect env file flags target msg w = Inl r \<Longrightarrow>
     \<exists>es w'. r = Exits 1 w' \<and> trace w' = trace w @ es \<and> \<not> list_ex is_signal_call es \<and> dispositions w' = dispositions w"
  by (auto simp: redirect_def emit_def Let_def split: option.splits if_splits)

lemma child_signals:
  assumes "argv \<noteq> []"
  shows "\<exists>r es. child env w argv inFile outFile = Inr r
      \<and> trace (result_world r) = trace w @ Signal SIGTSTP SIG_IGN # Signal SIGINT SIG_DFL # es
      \<and> \<not> list_ex is_signal_call es
      \<and> dispositions (result_world r) SIGTSTP = SIG_IGN
      \<and> dispositions (result_world r) SIGINT = SIG_DFL"
proof -
  define w2 where "w2 = signal_call SIGINT SIG_DFL (signal_call SIGTSTP SIG_IGN (w\<lparr>children := []\<rparr>))"
  have t2: "trace w2 = trace w @ [Signal SIGTSTP SIG_IGN, Signal SIGINT SIG_DFL]"
    and d2: "dispositions w2 SIGTSTP = SIG_IGN" "dispositions w2 SIGINT = SIG_DFL"
    by (simp_all add: w2_def signal_call_def emit_def)
  from assms obtain a0 rest where argv: "argv = a0 # rest"
    by (cases argv) auto
  show ?thesis
  proof (cases "redirect env inFile O_RDONLY 0 ''Input redirection failed'' w2")
    case (Inl r)
    from redirect_Inl [OF Inl] t2 d2 Inl show ?thesis
      by (auto simp: child_def Let_def w2_def [symmetric])
  next
    case (Inr w3)
    from redirect_Inr [OF Inr] obtain es3 where 3: "trace w3 = trace w2 @ es3"
      "\<not> list_ex is_signal_call es3" "dispositions w3 = dispositions w2"
      by blast
    show ?thesis
    proof (cases "redirect env outFile O_WRONLY_CREAT_TRUNC 1 ''Output redirection failed'' w3")
      case (Inl r)
      from redirect_Inl [OF Inl] 3 t2 d2 Inl Inr show ?thesis
        by (auto simp: child_def Let_def w2_def [symmetric])
    next
      case (Inr w4)
      from redirect_Inr [OF Inr] obtain es4 where 4: "trace w4 = trace w3 @ es4"
        "\<not> list_ex is_signal_call es4" "dispositions w4 = dispositions w3"
        by blast
      from 3 4 t2 d2 Inr \<open>redirect env inFile O_RDONLY 0 ''Input redirection failed'' w2 = Inr w3\<close> argv
      show ?thesis
        by (auto simp: child_def Let_def w2_def [symmetric] emit_def)
    qed
  qed
qed

text \<open>
  C9: in the child (\<open>fork\<close> has returned 0) the first two things that happen are
  \<open>signal(SIGTSTP, SIG_IGN)\<close> and \<open>signal(SIGINT, SIG_DFL)\<close>; redirection and
  \<open>execvp\<close> come after them, no later call changes a disposition, and so the child
  ends (by \<open>execvp\<close> or by \<open>exit\<close>) with SIGTSTP ignored and SIGINT at its default,
  whatever the dispositions of the interpreter were.
\<close>

theorem child_sets_signal_dispositions_first:
  assumes "fork_ret env = 0" and "argv \<noteq> []"
  shows "\<exists>r es. executeCommand env w argv inFile outFile bg = Inr r
      \<and> trace (result_world r) = trace w @ Signal SIGTSTP SIG_IGN # Signal SIGINT SIG_DFL # es
      \<and> \<not> list_ex is_signal_call es
      \<and> dispositions (result_world r) SIGTSTP = SIG_IGN
      \<and> dispositions (result_world r) SIGINT = SIG_DFL"
  using assms(1) child_signals [OF assms(2), of env w inFile outFile]
  by (simp add: executeCommand_def)

theorem child_sets_signal_dispositions_first_witness:
  "fork_ret (example_env\<lparr>fork_ret := 0\<rparr>) = 0 \<and> [''cat''] \<noteq> []
   \<and> dispositions initial_world SIGINT = SIG_IGN
   \<and> (\<exists>r es. executeCommand (example_env\<lparr>fork_ret := 0\<rparr>) initial_world [''cat'']
                 (Some ''in.txt'') None 0 = Inr r
      \<and> trace (result_world r)
          = trace initial_world @ Signal SIGTSTP SIG_IGN # Signal SIGINT SIG_DFL # es
      \<and> \<not> list_ex is_signal_call es
      \<and> dispositions (result_world r) SIGTSTP = SIG_IGN
      \<and> dispositions (result_world r) SIGINT = SIG_DFL)"
  using child_sets_signal_dispositions_first
    [of "example_env\<lparr>fork_ret := 0\<rparr>" "[''cat'']" initial_world "Some ''in.txt''" None 0]
  by (simp add: initial_world_def)

subsection \<open>C4: \<open>&\<close> in foreground-only mode\<close>

lemma parse_loop_in_last: "parse_loop fg pid [''<''] st = Inr (st\<lparr>inputFile := None\<rparr>)"
  by simp

lemma parse_loop_out_last: "parse_loop fg pid [''>''] st = Inr (st\<lparr>outputFile := None\<rparr>)"
  by simp

lemma parse_loop_in:
  "parse_loop fg pid (''<'' # f # rest) st = parse_loop fg pid rest (st\<lparr>inputFile := Some f\<rparr>)"
  by simp

lemma parse_loop_out:
  "parse_loop fg pid (''>'' # f # rest) st = parse_loop fg pid rest (st\<lparr>outputFile := Some f\<rparr>)"
  by simp

lemma parse_loop_amp:
  "parse_loop fg pid (''&'' # rest) st =
     parse_loop fg pid rest (if fg = 0 then st\<lparr>background := 1\<rparr> else st)"
  by simp

lemma parse_loop_arg:
  assumes "parse_loop fg pid (token # rest) st = Inr p"
    and "\<not> operator token" and "token \<noteq> ''&''"
  obtains a where "parse_loop fg pid rest (st\<lparr>args := args st @ [a]\<rparr>) = Inr p"
proof (cases "strstr token ''$$'' \<noteq> None")
  case True
  with assms have e: "(case expandShellID pid token of Inl e \<Rightarrow> Inl e
      | Inr a \<Rightarrow> (case store_arg st a of Inl e \<Rightarrow> Inl e | Inr st' \<Rightarrow> parse_loop fg pid rest st')) = Inr p"
    by (simp add: operator_def)
  then obtain a where a: "expandShellID pid token = Inr a"
    by (cases "expandShellID pid token") simp_all
  with e have "(case store_arg st a of Inl e \<Rightarrow> Inl e | Inr st' \<Rightarrow> parse_loop fg pid rest st') = Inr p"
    by simp
  then have "parse_loop fg pid rest (st\<lparr>args := args st @ [a]\<rparr>) = Inr p"
    by (cases "length (args st) < MAX_ARG_SIZE") (simp_all add: store_arg_def)
  then show ?thesis by (rule that)
next
  case False
  with assms have "(case store_arg st token of Inl e \<Rightarrow> Inl e | Inr st' \<Rightarrow> parse_loop fg pid rest st') = Inr p"
    by (simp add: operator_def)
  then have "parse_loop fg pid rest (st\<lparr>args := args st @ [token]\<rparr>) = Inr p"
    by (cases "length (args st) < MAX_ARG_SIZE") (simp_all add: store_arg_def)
  then show ?thesis by (rule that)
qed



text \<open>
  A last token that does not follow \<open><\<close> or \<open>>\<close> is not taken as a file name: the
  loop comes to it as \<open>token\<close>.
\<close>

lemma parse_loop_last_token:
  "parse_loop fg pid (ts @ [t]) st = Inr p \<Longrightarrow> ts = [] \<or> \<not> operator (last ts) \<Longrightarrow>
   \<exists>st'. parse_loop fg pid [t] st' = Inr p"
proof (induction ts arbitrary: st rule: length_induct)
  case (1 ts)
  note IH = "1.IH" [rule_format]
  show ?case
  proof (cases ts)
    case Nil
    with "1.prems" show ?thesis by auto
  next
    case (Cons token rest)
    note ts = Cons
    from "1.prems"(2) ts have last_rest: "rest = [] \<or> \<not> operator (last rest)"
      by (auto split: if_splits)
    consider (inp) "token = ''<''" | (out) "token = ''>''" | (amp) "token = ''&''"
      | (arg) "\<not> operator token" "token \<noteq> ''&''"
      by (auto simp: operator_def)
    then show ?thesis
    proof cases
      case inp
      with "1.prems"(2) ts obtain f rest' where rest: "rest = f # rest'"
        by (cases rest) (auto simp: operator_def)
      with "1.prems"(2) ts have l: "rest' = [] \<or> \<not> operator (last rest')"
        by (auto split: if_splits)
      from inp ts rest "1.prems"(1)
      have "parse_loop fg pid (rest' @ [t]) (st\<lparr>inputFile := Some f\<rparr>) = Inr p"
        by (simp only: append_Cons parse_loop_in)
      from IH [OF _ this l] ts rest show ?thesis
        by simp
    next
      case out
      with "1.prems"(2) ts obtain f rest' where rest: "rest = f # rest'"
        by (cases rest) (auto simp: operator_def)
      with "1.prems"(2) ts have l: "rest' = [] \<or> \<not> operator (last rest')"
        by (auto split: if_splits)
      from out ts rest "1.prems"(1)
      have "parse_loop fg pid (rest' @ [t]) (st\<lparr>outputFile := Some f\<rparr>) = Inr p"
        by (simp only: append_Cons parse_loop_out)
      from IH [OF _ this l] ts rest show ?thesis
        by simp
    next
      case amp
      with ts "1.prems"(1)
      have "parse_loop fg pid (rest @ [t]) (if fg = 0 then st\<lparr>background := 1\<rparr> else st) = Inr p"
        by (simp only: append_Cons parse_loop_amp)
      from IH [OF _ this last_rest] ts show ?thesis
        by simp
    next
      case arg
      from "1.prems"(1) [unfolded ts append_Cons] arg obtain a where
        "parse_loop fg pid (rest @ [t]) (st\<lparr>args := args st @ [a]\<rparr>) = Inr p"
        by (rule parse_loop_arg)
      from IH [OF _ this last_rest] ts show ?thesis
        by simp
    qed
  qed
qed

lemma parseInput_Inr:
  assumes "parseInput fg pid line st = Inr p"
  shows "parse_loop fg pid (tokens line) st = Inr p"
proof (cases "parse_loop fg pid (tokens line) st")
  case (Inl e)
  with assms show ?thesis
    by (simp add: parseInput_def)
next
  case (Inr st')
  with assms show ?thesis
    by (cases "length (args st') < MAX_ARG_SIZE") (simp_all add: parseInput_def store_sentinel_def)
qed








subsection \<open>C7: a redirection operator as the last token\<close>

lemma strtok_parts:
  assumes "strtok s = Some (t, rest)"
  shows "set t \<subseteq> set s" and "length t \<le> length s" and "set rest \<subseteq> set s"
proof -
  define s1 where "s1 = dropWhile (\<lambda>c. c = CHR '' '') s"
  from assms have t: "t = takeWhile (\<lambda>c. c \<noteq> CHR '' '') s1"
    and r: "rest = drop 1 (dropWhile (\<lambda>c. c \<noteq> CHR '' '') s1)"
    unfolding strtok_def Let_def s1_def by (simp_all split: if_splits)
  have s1: "set s1 \<subseteq> set s" "length s1 \<le> length s"
    unfolding s1_def by (auto dest: set_dropWhileD simp: length_dropWhile_le)
  have "set t \<subseteq> set s1"
    unfolding t by (auto dest: set_takeWhileD)
  with s1 show "set t \<subseteq> set s"
    by blast
  have "length t \<le> length s1"
    unfolding t by (rule length_takeWhile_le)
  with s1 show "length t \<le> length s"
    by simp
  have "set rest \<subseteq> set s1"
    unfolding r by (auto dest: in_set_dropD set_dropWhileD)
  with s1 show "set rest \<subseteq> set s"
    by blast
qed

lemma tokens_parts: "t \<in> set (tokens s) \<Longrightarrow> set t \<subseteq> set s \<and> length t \<le> length s"
proof (induction s rule: tokens.induct)
  case (1 s)
  show ?case
  proof (cases "strtok s")
    case None
    with "1.prems" show ?thesis
      by (simp add: tokens_end)
  next
    case (Some tr)
    obtain t0 rest where tr: "tr = (t0, rest)"
      by (cases tr)
    from Some tr have st: "strtok s = Some (t0, rest)"
      by simp
    from "1.prems" tokens_step [OF st] consider "t = t0" | "t \<in> set (tokens rest)"
      by auto
    then show ?thesis
    proof cases
      case 1
      with strtok_parts(1,2) [OF st] show ?thesis
        by simp
    next
      case 2
      from "1.IH" [OF st refl 2] strtok_parts(3) [OF st] strtok_shorter [OF st] show ?thesis
        by auto
    qed
  qed
qed

lemma parse_loop_arg_step:
  assumes "\<not> operator token" and "token \<noteq> ''&''" and "length (args st) < MAX_ARG_SIZE"
    and "NUL \<notin> set token" and "length token < 2 ^ 32"
  shows "\<exists>a. parse_loop fg pid (token # rest) st
      = parse_loop fg pid rest (st\<lparr>args := args st @ [a]\<rparr>)"
proof (cases "strstr token ''$$'' \<noteq> None")
  case True
  from expandShellID_eq [OF True assms(4,5), of pid] assms(1,2,3) True show ?thesis
    by (auto simp: operator_def store_arg_def)
next
  case False
  with assms(1,2,3) show ?thesis
    by (auto simp: operator_def store_arg_def)
qed

lemma parse_loop_returns:
  "list_all (\<lambda>t. NUL \<notin> set t \<and> length t < 2 ^ 32) ts \<Longrightarrow>
   length (args st) + length ts < MAX_ARG_SIZE \<Longrightarrow>
   \<exists>p. parse_loop fg pid ts st = Inr p \<and> length (args p) \<le> length (args st) + length ts"
proof (induction ts arbitrary: st rule: length_induct)
  case (1 ts)
  note IH = "1.IH" [rule_format]
  show ?case
  proof (cases ts)
    case Nil
    then show ?thesis by simp
  next
    case (Cons token rest)
    note ts = Cons
    from "1.prems"(1) ts have rest_ok: "list_all (\<lambda>t. NUL \<notin> set t \<and> length t < 2 ^ 32) rest"
      and tok_ok: "NUL \<notin> set token" "length token < 2 ^ 32"
      by simp_all
    consider (inp) "token = ''<''" | (out) "token = ''>''" | (amp) "token = ''&''"
      | (arg) "\<not> operator token" "token \<noteq> ''&''"
      by (auto simp: operator_def)
    then show ?thesis
    proof cases
      case inp
      show ?thesis
      proof (cases rest)
        case Nil
        with inp ts show ?thesis
          by (simp only: parse_loop_in_last) simp
      next
        case (Cons f rest')
        from rest_ok Cons have "list_all (\<lambda>t. NUL \<notin> set t \<and> length t < 2 ^ 32) rest'"
          by simp
        from IH [OF _ this, of "st\<lparr>inputFile := Some f\<rparr>"] "1.prems"(2) ts Cons inp
        show ?thesis
          by (simp only: parse_loop_in) force
      qed
    next
      case out
      show ?thesis
      proof (cases rest)
        case Nil
        with out ts show ?thesis
          by (simp only: parse_loop_out_last) simp
      next
        case (Cons f rest')
        from rest_ok Cons have "list_all (\<lambda>t. NUL \<notin> set t \<and> length t < 2 ^ 32) rest'"
          by simp
        from IH [OF _ this, of "st\<lparr>outputFile := Some f\<rparr>"] "1.prems"(2) ts Cons out
        show ?thesis
          by (simp only: parse_loop_out) force
      qed
    next
      case amp
      from IH [OF _ rest_ok, of "if fg = 0 then st\<lparr>background := 1\<rparr> else st"] "1.prems"(2) ts amp
      show ?thesis
        by (simp only: parse_loop_amp) force
    next
      case arg
      from "1.prems"(2) ts have "length (args st) < MAX_ARG_SIZE"
        by simp
      from parse_loop_arg_step [OF arg this tok_ok, of fg pid rest] obtain a where
        a: "parse_loop fg pid (token # rest) st
          = parse_loop fg pid rest (st\<lparr>args := args st @ [a]\<rparr>)" ..
      from IH [OF _ rest_ok, of "st\<lparr>args := args st @ [a]\<rparr>"] "1.prems"(2) ts
      show ?thesis
        unfolding ts a by force
    qed
  qed
qed

text \<open>
  \<open>parseInput\<close> returns on every line of fewer than \<open>MAX_ARG_SIZE\<close> tokens that
  \<open>fgets\<close> can have read.
\<close>

lemma parseInput_returns:
  assumes "length (tokens line) < MAX_ARG_SIZE" and "NUL \<notin> set line"
    and "length line < MAX_INPUT_SIZE"
  shows "\<exists>p. parseInput fg pid line
      \<lparr>args = [], inputFile = None, outputFile = None, background = 0\<rparr> = Inr p"
proof -
  let ?st = "\<lparr>args = [], inputFile = None, outputFile = None, background = 0\<rparr>"
  have "list_all (\<lambda>t. NUL \<notin> set t \<and> length t < 2 ^ 32) (tokens line)"
    unfolding list_all_iff
  proof
    fix t assume "t \<in> set (tokens line)"
    from tokens_parts [OF this] assms(2,3) show "NUL \<notin> set t \<and> length t < 2 ^ 32"
      by (auto simp: MAX_INPUT_SIZE_def)
  qed
  from parse_loop_returns [OF this, of ?st fg pid] assms(1) obtain p where
    "parse_loop fg pid (tokens line) ?st = Inr p" "length (args p) < MAX_ARG_SIZE"
    by auto
  then show ?thesis
    by (simp add: parseInput_def store_sentinel_def)
qed

lemma dangling_redirection_unset:
  assumes "parseInput fg pid line st = Inr p"
    and "tokens line = ts @ [t]" and "ts = [] \<or> \<not> operator (last ts)"
  shows "(t = ''<'' \<longrightarrow> inputFile p = None) \<and> (t = ''>'' \<longrightarrow> outputFile p = None)"
proof -
  from parseInput_Inr [OF assms(1)] assms(2)
  have "parse_loop fg pid (ts @ [t]) st = Inr p"
    by simp
  from parse_loop_last_token [OF this assms(3)] obtain st' where
    "parse_loop fg pid [t] st' = Inr p" ..
  then show ?thesis
    by auto
qed

text \<open>
  C7 says that every line whose last token is \<open><\<close> or \<open>>\<close> is parsed without error,
  with the path left unset, and that the command then runs without the redirection.
  \<open>parseInput\<close> does leave the path unset (\<open>dangling_redirection_unset\<close>, for every
  line that it returns on). But on the line \<open><\<close> (or \<open>>\<close>) alone it stores no
  argument, and \<open>handleCommand\<close> passes the sentinel in \<open>args[0]\<close> to \<open>strcmp\<close>.
\<close>

theorem dangling_redirection_alone_crashes:
  "parseInput fg pid ''<'' \<lparr>args = [], inputFile = None, outputFile = None, background = 0\<rparr>
     = Inr \<lparr>args = [], inputFile = None, outputFile = None, background = 0\<rparr>
   \<and> handleCommand env initial_world ''<'' = Inl NullDereference
   \<and> handleCommand env initial_world ''>'' = Inl NullDereference"
  by (simp add: handleCommand_def parseInput_def tokens.simps strtok_def store_sentinel_def
      MAX_ARG_SIZE_def)

end
